theory Spec2Isabelle
  imports Complex_Main
begin

section \<open>Learning-rate schedules (train.py, lines 47-82)\<close>

text \<open>
  Python integers are \<open>int\<close>; \<open>float(...)\<close> is the embedding of an integer into the
  reals, and floating-point arithmetic is idealised as real arithmetic. Each function below
  is the inner \<open>_lr_lambda\<close> of the corresponding schedule getter, with the captured
  arguments of the getter as leading parameters.
\<close>

definition cosine_lr_lambda :: "int \<Rightarrow> int \<Rightarrow> int \<Rightarrow> real \<Rightarrow> int \<Rightarrow> real" where
  "cosine_lr_lambda num_warmup_epochs num_training_epochs num_steps_per_epoch num_cycles current_step =
     (let num_warmup_steps = num_warmup_epochs * num_steps_per_epoch;
          num_training_steps = num_training_epochs * num_steps_per_epoch
      in if current_step < num_warmup_steps
         then real_of_int current_step / real_of_int (max 1 num_warmup_steps)
         else (let no_progress = real_of_int (current_step - num_warmup_steps) /
                                 real_of_int (max 1 (num_training_steps - num_warmup_steps))
               in max 0 (cos (pi * num_cycles * no_progress))))"

text \<open>The default value of the keyword argument \<open>num_cycles\<close>.\<close>

definition default_num_cycles :: real where
  "default_num_cycles = 7 / 16"

datatype py_error = IndexError | RuntimeError | ValueError | AssertionError | StopIteration
  | KeyboardInterrupt | OtherException string

text \<open>
  Exceptions are values of \<open>py_error\<close>, and a computation that may raise returns
  \<open>py_error + 'a\<close>.

  \<open>decay_steps[3]\<close> ... \<open>decay_steps[0]\<close> raise IndexError on a list of fewer than four
  boundaries; Python evaluates the chain \<open>a and 4 or b and 3 or c and 2 or d and 1 or 0\<close>
  from the left, so the index 3 is read first and a short list always raises. The
  constants 4, 3, 2, 1 are truthy, so the chain is a cascade of conditionals.
\<close>

definition step_lr_lambda :: "int \<Rightarrow> int \<Rightarrow> int \<Rightarrow> int list \<Rightarrow> real \<Rightarrow> int \<Rightarrow> py_error + real" where
  "step_lr_lambda num_warmup_epochs num_training_epochs num_steps_per_epoch decay_epochs decay_factor current_step =
     (let num_warmup_steps = num_warmup_epochs * num_steps_per_epoch;
          num_training_steps = num_training_epochs * num_steps_per_epoch;
          decay_steps = map (\<lambda>e. e * num_steps_per_epoch) decay_epochs
      in if current_step < num_warmup_steps
         then Inr (real_of_int current_step / real_of_int (max 1 num_warmup_steps))
         else if length decay_steps < 4 then Inl IndexError
         else (let exp = (if current_step > decay_steps ! 3 then 4
                          else if current_step > decay_steps ! 2 then 3
                          else if current_step > decay_steps ! 1 then 2
                          else if current_step > decay_steps ! 0 then 1 else (0::nat))
               in Inr (decay_factor ^ exp)))"

definition default_decay_epochs :: "int list" where
  "default_decay_epochs = [60, 120, 160, 200]"

definition default_decay_factor :: real where
  "default_decay_factor = 1 / 10"

text \<open>The number of decay boundaries (in steps) that a step has strictly passed.\<close>

definition boundaries_passed :: "int \<Rightarrow> int list \<Rightarrow> int \<Rightarrow> nat" where
  "boundaries_passed num_steps_per_epoch decay_epochs current_step =
     length (filter (\<lambda>e. e * num_steps_per_epoch < current_step) decay_epochs)"

section \<open>Batch interleaving (train.py, lines 92-99)\<close>

text \<open>
  A tensor of shape \<open>[N, d1, ..., dm]\<close> is the list of its \<open>N\<close> slices along the leading
  axis, in row-major order; the trailing axes \<open>s[1:]\<close> are carried unchanged by every
  reshape below, so a slice is an opaque value and extents are counted in slices (the
  trailing extents are positive, as those of image, feature and logit batches are).

  \<open>reshape\<close> with one extent given as \<open>-1\<close> infers it from the number of elements and
  raises RuntimeError when the other extents multiply to zero or do not divide it; an
  extent that is negative (other than the one \<open>-1\<close>) is refused as well.
\<close>

definition infer_dim :: "nat \<Rightarrow> int \<Rightarrow> py_error + nat" where
  "infer_dim numel other =
     (if other \<le> 0 \<or> int numel mod other \<noteq> 0 then Inl RuntimeError
      else Inr (numel div nat other))"

text \<open>The row-major view of a list of \<open>r * c\<close> slices as \<open>r\<close> rows of \<open>c\<close> slices.\<close>

definition view2 :: "nat \<Rightarrow> nat \<Rightarrow> 'a list \<Rightarrow> 'a list list" where
  "view2 r c xs = map (\<lambda>i. take c (drop (i * c) xs)) [0..<r]"

text \<open>\<open>transpose(0, 1)\<close> of an \<open>[r, c, ...]\<close> tensor: entry \<open>(j, i)\<close> of the result is entry \<open>(i, j)\<close>.\<close>

definition transpose01 :: "nat \<Rightarrow> nat \<Rightarrow> 'a list list \<Rightarrow> 'a list list" where
  "transpose01 r c m = map (\<lambda>j. map (\<lambda>i. m ! i ! j) [0..<r]) [0..<c]"

text \<open>\<open>x.reshape([-1, size] + s[1:]).transpose(0, 1).reshape([-1] + s[1:])\<close>\<close>

definition interleave :: "'a list \<Rightarrow> int \<Rightarrow> py_error + 'a list" where
  "interleave x sz =
     (case infer_dim (length x) sz of
        Inl e \<Rightarrow> Inl e
      | Inr n \<Rightarrow> Inr (concat (transpose01 n (nat sz) (view2 n (nat sz) x))))"

text \<open>\<open>x.reshape([size, -1] + s[1:]).transpose(0, 1).reshape([-1] + s[1:])\<close>\<close>

definition de_interleave :: "'a list \<Rightarrow> int \<Rightarrow> py_error + 'a list" where
  "de_interleave x sz =
     (case infer_dim (length x) sz of
        Inl e \<Rightarrow> Inl e
      | Inr n \<Rightarrow> Inr (concat (transpose01 (nat sz) n (view2 (nat sz) n x))))"

section \<open>Tensor operations used by the training step\<close>

text \<open>
  A batch of logits or probabilities of shape \<open>[B, K]\<close> is a list of \<open>B\<close> rows of \<open>K\<close>
  reals. Elementwise operations pair the entries of two batches of the same shape, as the
  batches combined below are (they come from the same forward of the same samples); on
  batches of different shapes PyTorch broadcasts or raises, whereas the model pairs the
  entries that both have, so statements about the values are made for equal shapes.
\<close>

type_synonym mat = "real list list"

definition bind_err :: "py_error + 'a \<Rightarrow> ('a \<Rightarrow> py_error + 'b) \<Rightarrow> py_error + 'b" where
  "bind_err m f = (case m of Inl e \<Rightarrow> Inl e | Inr v \<Rightarrow> f v)"

definition softmax :: "real list \<Rightarrow> real list" where
  "softmax row = map (\<lambda>z. exp z / sum_list (map exp row)) row"

definition log_softmax :: "real list \<Rightarrow> real list" where
  "log_softmax row = map (\<lambda>z. z - ln (sum_list (map exp row))) row"

text \<open>
  \<open>torch.softmax(logits / T, dim=-1)\<close>. A temperature of zero makes the quotient
  infinite or undefined in floating point, which real arithmetic does not represent;
  statements about the values of this function are made for \<open>T \<noteq> 0\<close>.
\<close>

definition softmax_T :: "real \<Rightarrow> mat \<Rightarrow> mat" where
  "softmax_T T logits = map (\<lambda>row. softmax (map (\<lambda>z. z / T) row)) logits"

definition mat_mul :: "mat \<Rightarrow> mat \<Rightarrow> mat" where
  "mat_mul a b = map2 (map2 (*)) a b"

definition mat_add :: "mat \<Rightarrow> mat \<Rightarrow> mat" where
  "mat_add a b = map2 (map2 (+)) a b"

definition mean :: "real list \<Rightarrow> real" where
  "mean xs = sum_list xs / real (length xs)"

fun first_index :: "('a \<Rightarrow> bool) \<Rightarrow> 'a list \<Rightarrow> nat" where
  "first_index P [] = 0"
| "first_index P (x # xs) = (if P x then 0 else Suc (first_index P xs))"

text \<open>
  The maximum of a non-empty row and the index of its first occurrence:
  \<open>torch.max(row, dim=-1)\<close> returns the index of the first maximal value.
\<close>

definition row_max :: "real list \<Rightarrow> real \<times> nat" where
  "row_max row = (let m = Max (set row) in (m, first_index (\<lambda>v. v = m) row))"

text \<open>\<open>torch.max(t, dim=-1)\<close> raises RuntimeError when the reduced axis is empty.\<close>

definition torch_max :: "mat \<Rightarrow> py_error + (real list \<times> nat list)" where
  "torch_max t =
     (if \<exists>row \<in> set t. row = [] then Inl RuntimeError
      else Inr (map (\<lambda>row. fst (row_max row)) t, map (\<lambda>row. snd (row_max row)) t))"

text \<open>
  \<open>t.chunk(2)\<close> along the leading axis, unpacked into two names: chunks have
  \<open>ceil(L / 2)\<close> slices, an empty tensor gives two empty chunks, and a tensor of one slice
  gives a single chunk, so that the unpacking raises ValueError.
\<close>

definition chunk2 :: "'a list \<Rightarrow> py_error + ('a list \<times> 'a list)" where
  "chunk2 t =
     (if length t = 1 then Inl ValueError
      else (let split_size = (length t + 1) div 2 in Inr (take split_size t, drop split_size t)))"

text \<open>
  \<open>F.cross_entropy(logits, targets, reduction='none')\<close>: the negative log-probability of
  the target class of each row. It raises when the batch sizes differ or a target is not a
  class index.
\<close>

definition cross_entropy_none :: "mat \<Rightarrow> nat list \<Rightarrow> py_error + real list" where
  "cross_entropy_none logits targets =
     (if length logits \<noteq> length targets then Inl ValueError
      else if \<exists>(row, t) \<in> set (zip logits targets). length row \<le> t then Inl IndexError
      else Inr (map2 (\<lambda>row t. - (log_softmax row ! t)) logits targets))"

definition cross_entropy_mean :: "mat \<Rightarrow> nat list \<Rightarrow> py_error + real" where
  "cross_entropy_mean logits targets =
     bind_err (cross_entropy_none logits targets) (\<lambda>ls. Inr (mean ls))"

section \<open>Pseudo-label generator (train.py, lines 461-472)\<close>

text \<open>
  The classifier head \<open>model['F']\<close> may sample its weights on every call, so a call
  takes the state \<open>'s\<close> of the model that is not a trained parameter (sampling state,
  normalisation buffers) and returns the new one. \<open>.detach()\<close> does not change values.
  The loop \<open>for _ in range(num_classifiers - 1)\<close> runs \<open>nat (num_classifiers - 1)\<close>
  times, with the running product, the running sum and the model state as its state.
\<close>

fun classifier_loop ::
  "('f list \<Rightarrow> 's \<Rightarrow> mat \<times> 's) \<Rightarrow> real \<Rightarrow> 'f list \<Rightarrow> nat \<Rightarrow> mat \<times> mat \<times> 's \<Rightarrow> mat \<times> mat \<times> 's" where
  "classifier_loop F T features_u_w 0 acc = acc"
| "classifier_loop F T features_u_w (Suc n) (pseudo_label_mul, pseudo_label_sum, s) =
     (let (out, s') = F features_u_w s;
          prob = softmax_T T out
      in classifier_loop F T features_u_w n
           (mat_mul pseudo_label_mul prob, mat_add pseudo_label_sum prob, s'))"

text \<open>
  The values the generator leaves for the rest of the step: \<open>pseudo_label_mul\<close>,
  \<open>pseudo_label_sum\<close>, \<open>max_probs\<close>, \<open>targets_u\<close> and \<open>mask\<close>.
\<close>

record pseudo =
  pl_mul :: mat
  pl_sum :: mat
  pl_max_probs :: "real list"
  pl_targets_u :: "nat list"
  pl_mask :: "real list"

text \<open>
  Lines 471-472: \<open>max_probs, targets_u = torch.max(pseudo_label, dim=-1)\<close> and
  \<open>mask = max_probs.ge(args.confidence_threshold).float()\<close>.
\<close>

definition confidence :: "real \<Rightarrow> mat \<Rightarrow> py_error + (real list \<times> nat list \<times> real list)" where
  "confidence confidence_threshold pseudo_label =
     bind_err (torch_max pseudo_label) (\<lambda>(max_probs, targets_u).
       Inr (max_probs, targets_u,
            map (\<lambda>m. if m \<ge> confidence_threshold then 1 else 0) max_probs))"

definition pseudo_label ::
  "('f list \<Rightarrow> 's \<Rightarrow> mat \<times> 's) \<Rightarrow> real \<Rightarrow> int \<Rightarrow> real \<Rightarrow> mat \<Rightarrow> 'f list \<Rightarrow> 's
     \<Rightarrow> py_error + (pseudo \<times> 's)" where
  "pseudo_label F T num_classifiers confidence_threshold logits_u_w features_u_w s =
     (let pseudo_label1 = softmax_T T logits_u_w;
          (mul, sm, s') = classifier_loop F T features_u_w (nat (num_classifiers - 1))
                            (pseudo_label1, pseudo_label1, s);
          sm' = map (map (\<lambda>v. v / real_of_int num_classifiers)) sm
      in bind_err (confidence confidence_threshold mul) (\<lambda>(mx, tg, msk).
           Inr (\<lparr>pl_mul = mul, pl_sum = sm', pl_max_probs = mx,
                 pl_targets_u = tg, pl_mask = msk\<rparr>, s')))"

text \<open>
  The softmax outputs of the passes, in order: the one of the weak-branch logits of the
  interleaved forward first, then one per further call of the classifier head on the cached
  features, each call starting from the model state the previous one left.
\<close>

fun resampled_passes ::
  "('f list \<Rightarrow> 's \<Rightarrow> mat \<times> 's) \<Rightarrow> real \<Rightarrow> 'f list \<Rightarrow> nat \<Rightarrow> 's \<Rightarrow> mat list" where
  "resampled_passes F T features_u_w 0 s = []"
| "resampled_passes F T features_u_w (Suc n) s =
     (let (out, s') = F features_u_w s
      in softmax_T T out # resampled_passes F T features_u_w n s')"

definition passes ::
  "('f list \<Rightarrow> 's \<Rightarrow> mat \<times> 's) \<Rightarrow> real \<Rightarrow> int \<Rightarrow> mat \<Rightarrow> 'f list \<Rightarrow> 's \<Rightarrow> mat list" where
  "passes F T num_classifiers logits_u_w features_u_w s =
     softmax_T T logits_u_w # resampled_passes F T features_u_w (nat (num_classifiers - 1)) s"

text \<open>
  The logits that the further calls \<open>model['F'](features_u_w)\<close> of line 466 return, in
  order, before the division by \<open>args.T\<close> and the softmax: the first call starts from
  the model state the interleaved forward left, every later call from the state its
  predecessor left.
\<close>

fun classifier_outputs :: "('f list \<Rightarrow> 's \<Rightarrow> mat \<times> 's) \<Rightarrow> 'f list \<Rightarrow> nat \<Rightarrow> 's \<Rightarrow> mat list" where
  "classifier_outputs F features_u_w 0 s = []"
| "classifier_outputs F features_u_w (Suc n) s =
     (let (out, s') = F features_u_w s
      in out # classifier_outputs F features_u_w n s')"

text \<open>A batch has shape \<open>[B, K]\<close>: \<open>B\<close> rows of \<open>K\<close> entries each.\<close>

definition shaped :: "nat \<Rightarrow> nat \<Rightarrow> 'a list list \<Rightarrow> bool" where
  "shaped B K m \<longleftrightarrow> length m = B \<and> (\<forall>row \<in> set m. length row = K)"

section \<open>Unsupervised targets and loss (train.py, lines 476-491)\<close>

datatype pseudo_label_method = Depict | Fixmatch

text \<open>
  Tensor objects that are written in place live in a store: \<open>cells\<close> maps the address of
  a tensor object to its contents and \<open>lim\<close> is the next free address. A Python list of
  tensors is a list of addresses, so that two entries may be the same object.
\<close>

record tensor_store =
  cells :: "nat \<Rightarrow> mat"
  lim :: nat

definition empty_store :: tensor_store where
  "empty_store = \<lparr>cells = (\<lambda>_. []), lim = 0\<rparr>"

text \<open>\<open>t.clone()\<close> creates one new tensor object holding a copy of the contents.\<close>

definition clone :: "tensor_store \<Rightarrow> mat \<Rightarrow> nat \<times> tensor_store" where
  "clone st t = (lim st, st\<lparr>cells := (cells st)(lim st := t), lim := Suc (lim st)\<rparr>)"

text \<open>
  \<open>torch.distributed.all_gather(tensor_list, tensor)\<close>: the collective copies the tensor
  contributed by rank \<open>r\<close> into the object \<open>tensor_list[r]\<close>, for every rank of the group in
  order (\<open>write_cell\<close> is the in-place copy); the list must have one entry per rank.
  \<open>contributions\<close> lists what the ranks passed as \<open>tensor\<close>, in rank order.
\<close>

definition write_cell :: "tensor_store \<Rightarrow> nat \<Rightarrow> mat \<Rightarrow> tensor_store" where
  "write_cell st a t = st\<lparr>cells := (cells st)(a := t)\<rparr>"

definition all_gather :: "tensor_store \<Rightarrow> nat list \<Rightarrow> mat list \<Rightarrow> py_error + tensor_store" where
  "all_gather st tensor_list contributions =
     (if length tensor_list \<noteq> length contributions then Inl RuntimeError
      else Inr (fold (\<lambda>(a, t) st'. write_cell st' a t) (zip tensor_list contributions) st))"

text \<open>
  Lines 480-482. \<open>[pseudo_label_sum.clone()] * args.world_size\<close> evaluates \<open>clone\<close> once and
  repeats the reference to that one object \<open>world_size\<close> times; \<open>torch.cat\<close> then reads
  every entry of the list (and raises on an empty list). \<open>peer_sums\<close> are the tensors the ranks of the group contribute
  at this step; the entry of the own rank is the local \<open>pseudo_label_sum\<close>.
\<close>

definition gather_pseudo_label_sum ::
  "int \<Rightarrow> nat \<Rightarrow> mat list \<Rightarrow> tensor_store \<Rightarrow> mat \<Rightarrow> py_error + mat" where
  "gather_pseudo_label_sum world_size rank peer_sums st pseudo_label_sum =
     (let (a, st1) = clone st pseudo_label_sum;
          tensor_list = replicate (nat world_size) a
      in bind_err (all_gather st1 tensor_list (peer_sums[rank := pseudo_label_sum]))
           (\<lambda>st2. if tensor_list = [] then Inl RuntimeError
                  else Inr (concat (map (cells st2) tensor_list))))"

text \<open>\<open>tensor_list.sum(0, keepdim=True)\<close>: the sum of every column over the batch axis.\<close>

definition col_sums :: "mat \<Rightarrow> real list" where
  "col_sums m =
     (case m of [] \<Rightarrow> []
      | r # _ \<Rightarrow> map (\<lambda>j. sum_list (map (\<lambda>row. row ! j) m)) [0..<length r])"

text \<open>
  Lines 487-488: \<open>pseudo_label_sum / tensor_list.sum(0, keepdim=True).pow(0.5)\<close>, then
  every row divided by its sum. The column sums are sums of probabilities, so \<open>pow(0.5)\<close>
  is the square root.
\<close>

definition depict_targets :: "mat \<Rightarrow> mat \<Rightarrow> mat" where
  "depict_targets pseudo_label_sum tensor_list =
     (let denom = map sqrt (col_sums tensor_list);
          targets_u_aux = map (\<lambda>row. map2 (/) row denom) pseudo_label_sum
      in map (\<lambda>row. map (\<lambda>v. v / sum_list row) row) targets_u_aux)"

text \<open>
  The target of the unsupervised loss: the soft \<open>targets_u_aux\<close> of the depict method
  (gathered over the process group when \<open>local_rank \<noteq> -1\<close>), or the hard \<open>targets_u\<close> of
  the fixmatch method.
\<close>

datatype u_target = Soft mat | Hard "nat list"

definition unsup_target ::
  "pseudo_label_method \<Rightarrow> int \<Rightarrow> int \<Rightarrow> nat \<Rightarrow> mat list \<Rightarrow> pseudo \<Rightarrow> py_error + u_target" where
  "unsup_target meth local_rank world_size rank peer_sums pl =
     (case meth of
        Depict \<Rightarrow>
          bind_err (if local_rank \<noteq> -1
                    then gather_pseudo_label_sum world_size rank peer_sums empty_store
                           (pl_sum pl)
                    else Inr (pl_sum pl))
            (\<lambda>tensor_list. Inr (Soft (depict_targets (pl_sum pl) tensor_list)))
      | Fixmatch \<Rightarrow> Inr (Hard (pl_targets_u pl)))"

text \<open>
  Line 489: \<open>- ((targets_u_aux * F.log_softmax(logits_u, dim=-1)).sum(1) * mask).mean()\<close>
  and line 491: \<open>(F.cross_entropy(logits_u, targets_u, reduction='none') * mask).mean()\<close>;
  \<open>msk\<close> is the confidence mask.
\<close>

definition depict_loss :: "mat \<Rightarrow> mat \<Rightarrow> real list \<Rightarrow> real" where
  "depict_loss targets_u_aux logits_u msk =
     - mean (map2 (*) (map sum_list (mat_mul targets_u_aux (map log_softmax logits_u))) msk)"

definition unsup_loss :: "u_target \<Rightarrow> real list \<Rightarrow> mat \<Rightarrow> py_error + real" where
  "unsup_loss target msk logits_u =
     (case target of
        Soft targets_u_aux \<Rightarrow> Inr (depict_loss targets_u_aux logits_u msk)
      | Hard targets_u \<Rightarrow>
          bind_err (cross_entropy_none logits_u targets_u)
            (\<lambda>ce. Inr (mean (map2 (*) ce msk))))"

section \<open>Training step (train.py, lines 446-518)\<close>

text \<open>The options of \<open>args\<close> that the training loop reads; \<open>args_T\<close> is \<open>args.T\<close>.\<close>

record args =
  args_mu :: int
  args_T :: real
  args_num_classifiers :: int
  args_confidence_threshold :: real
  args_lambda_u :: real
  args_rm_aug_s :: bool
  args_pseudo_label_method :: pseudo_label_method
  args_local_rank :: int
  args_world_size :: int
  args_rank :: nat
  args_use_ema :: bool
  args_amp :: bool
  args_start_epoch :: int
  args_resume :: string
  args_epochs :: int
  args_eval_step :: int

text \<open>
  The collaborators of the step, which are not part of train.py, are parameters. \<open>'p\<close>
  are the trained parameters of \<open>model['G']\<close> and \<open>model['F']\<close>, \<open>'s\<close> the rest of the
  model state (normalisation buffers, sampling state), which a forward call may change,
  \<open>'o\<close> the optimizer with its scheduler, \<open>'e\<close> the EMA shadow models and \<open>'g\<close> the
  gradients. \<open>backward\<close> receives the loss as a function of the parameters and the point
  at which to differentiate it, and whether the loss is scaled by \<open>amp\<close>.
\<close>

record ('p, 's, 'o, 'e, 'g, 'x, 'f) components =
  model_G :: "'p \<Rightarrow> 'x list \<Rightarrow> 's \<Rightarrow> 'f list \<times> 's"
  model_F :: "'p \<Rightarrow> 'f list \<Rightarrow> 's \<Rightarrow> mat \<times> 's"
  backward :: "bool \<Rightarrow> ('p \<Rightarrow> py_error + real) \<Rightarrow> 'p \<Rightarrow> 'g"
  optimizer_step :: "'o \<Rightarrow> 'p \<Rightarrow> 'g \<Rightarrow> 'p \<times> 'o"
  scheduler_step :: "'o \<Rightarrow> 'o"
  ema_update :: "'e \<Rightarrow> 'p \<Rightarrow> 's \<Rightarrow> 'e"

text \<open>
  The metric accumulators of \<open>train\<close> other than the two wall-clock timers. The class
  \<open>AverageMeter\<close> is imported from \<open>utils\<close>, so an accumulator is a value of a type
  \<open>'m\<close> and its method is the parameter \<open>upd\<close>: \<open>upd m val None\<close> is \<open>m.update(val)\<close>
  and \<open>upd m val (Some n)\<close> is \<open>m.update(val, n)\<close>.
\<close>

record 'm meters =
  losses :: 'm
  losses_x :: 'm
  losses_u :: 'm
  mask_probs :: 'm
  noise_rates :: 'm
  mislabeled_nums :: 'm
  noise_rate_estms :: 'm
  mislabeled_num_estms :: 'm

record ('p, 's, 'o, 'e, 'm) train_state =
  params :: 'p
  net_state :: 's
  optim :: 'o
  ema_model :: 'e
  meters :: "'m meters"

text \<open>
  Lines 449-457: the interleaved forward through \<open>G\<close> then \<open>F\<close>, de-interleaved and
  split into the logits of the labeled, weak and strong sub-batches. The features and the
  model state after the forward are returned as well.
\<close>

definition forward ::
  "('p, 's, 'o, 'e, 'g, 'x, 'f) components \<Rightarrow> args \<Rightarrow> 'p \<Rightarrow> 's \<Rightarrow> 'x list \<Rightarrow> 'x list \<Rightarrow> 'x list
     \<Rightarrow> py_error + (mat \<times> mat \<times> mat \<times> 'f list \<times> 's)" where
  "forward c a p s inputs_x inputs_u_w inputs_u_s =
     (let batch_size = length inputs_x
      in bind_err (interleave (inputs_x @ inputs_u_w @ inputs_u_s) (2 * args_mu a + 1))
           (\<lambda>inputs.
              let (features, s1) = model_G c p inputs s;
                  (logits, s2) = model_F c p features s1
              in bind_err (de_interleave logits (2 * args_mu a + 1))
                   (\<lambda>logits'.
                      let logits_x = take batch_size logits'
                      in bind_err (chunk2 (drop batch_size logits'))
                           (\<lambda>(logits_u_w, logits_u_s).
                              Inr (logits_x, logits_u_w, logits_u_s, features, s2)))))"

text \<open>
  Lines 474, 476, 489/491 and 493 as a function of the parameters: the supervised loss,
  the unsupervised loss against the given target and mask (which are detached, hence
  constants), and \<open>loss = Lx + args.lambda_u * Lu\<close>.
\<close>

definition loss_of ::
  "('p, 's, 'o, 'e, 'g, 'x, 'f) components \<Rightarrow> args \<Rightarrow> 's \<Rightarrow> 'x list \<Rightarrow> nat list \<Rightarrow> 'x list \<Rightarrow> 'x list
     \<Rightarrow> u_target \<Rightarrow> real list \<Rightarrow> 'p \<Rightarrow> py_error + (real \<times> real \<times> real)" where
  "loss_of c a s inputs_x targets_x inputs_u_w inputs_u_s target msk p =
     bind_err (forward c a p s inputs_x inputs_u_w inputs_u_s)
       (\<lambda>(logits_x, logits_u_w, logits_u_s, features, s2).
          bind_err (cross_entropy_mean logits_x targets_x)
            (\<lambda>Lx. let logits_u = (if args_rm_aug_s a then logits_u_w else logits_u_s)
                  in bind_err (unsup_loss target msk logits_u)
                       (\<lambda>Lu. Inr (Lx, Lu, Lx + args_lambda_u a * Lu))))"

text \<open>
  Lines 513-518. \<open>x[mask == 1]\<close> keeps the entries of \<open>x\<close> at the positions where the
  mask is 1; \<open>(a != b).float()\<close> is 1 where the entries differ and 0 where they agree;
  \<open>logits_x.max(-1)[1]\<close> is the index of the first maximum of every row.
\<close>

definition masked_select :: "'a list \<Rightarrow> real list \<Rightarrow> 'a list" where
  "masked_select xs msk = map fst (filter (\<lambda>(x, m). m = 1) (zip xs msk))"

definition ne_float :: "nat list \<Rightarrow> nat list \<Rightarrow> real list" where
  "ne_float xs ys = map2 (\<lambda>x y. if x \<noteq> y then 1 else 0) xs ys"

definition update_diagnostics ::
  "('m \<Rightarrow> real \<Rightarrow> real option \<Rightarrow> 'm) \<Rightarrow> 'm meters \<Rightarrow> real list \<Rightarrow> nat list \<Rightarrow> nat list \<Rightarrow> mat \<Rightarrow> nat list
     \<Rightarrow> 'm meters" where
  "update_diagnostics upd ms msk targets_u targets_u_gt logits_x targets_x =
     (let ms1 = ms\<lparr>mask_probs := upd (mask_probs ms) (mean msk) None\<rparr>
      in if sum_list msk \<noteq> 0
         then (let wrong_u = masked_select (ne_float targets_u targets_u_gt) msk;
                   wrong_x = ne_float (map (\<lambda>row. snd (row_max row)) logits_x) targets_x
               in ms1\<lparr>noise_rates := upd (noise_rates ms1) (mean wrong_u) (Some (sum_list msk)),
                       mislabeled_nums := upd (mislabeled_nums ms1) (sum_list wrong_u) None,
                       noise_rate_estms := upd (noise_rate_estms ms1) (mean wrong_x) None,
                       mislabeled_num_estms :=
                         upd (mislabeled_num_estms ms1) (mean wrong_x * sum_list msk) None\<rparr>)
         else ms1)"

text \<open>
  Lines 449-509: forward, pseudo-labels, losses, backward, the three loss accumulators,
  optimizer and scheduler step, EMA update. The gradients are zeroed at the end of every
  step (and before the first), so they are local to the step. The result is the loss, the
  state after the step, the pseudo-labels and the logits of the labeled sub-batch.
\<close>

definition optimise ::
  "('p, 's, 'o, 'e, 'g, 'x, 'f) components \<Rightarrow> ('m \<Rightarrow> real \<Rightarrow> real option \<Rightarrow> 'm) \<Rightarrow> args
     \<Rightarrow> ('p, 's, 'o, 'e, 'm) train_state \<Rightarrow> mat list \<Rightarrow> 'x list \<Rightarrow> nat list \<Rightarrow> 'x list \<Rightarrow> 'x list
     \<Rightarrow> py_error + (real \<times> ('p, 's, 'o, 'e, 'm) train_state \<times> pseudo \<times> mat)" where
  "optimise c upd a st peer_sums inputs_x targets_x inputs_u_w inputs_u_s =
     bind_err (forward c a (params st) (net_state st) inputs_x inputs_u_w inputs_u_s)
       (\<lambda>(logits_x, logits_u_w, logits_u_s, features, s2).
          bind_err (de_interleave features (2 * args_mu a + 1))
            (\<lambda>features'.
               let features_u_w = take (length inputs_u_w) (drop (length inputs_x) features')
               in bind_err (pseudo_label (model_F c (params st)) (args_T a) (args_num_classifiers a)
                              (args_confidence_threshold a) logits_u_w features_u_w s2)
                    (\<lambda>(pl, s3).
                       bind_err (unsup_target (args_pseudo_label_method a) (args_local_rank a)
                                   (args_world_size a) (args_rank a) peer_sums pl)
                         (\<lambda>target.
                            let loss_fn = loss_of c a (net_state st) inputs_x targets_x
                                            inputs_u_w inputs_u_s target (pl_mask pl)
                            in bind_err (loss_fn (params st))
                                 (\<lambda>(Lx, Lu, loss).
                                    let grads = backward c (args_amp a)
                                                  (\<lambda>p. map_sum id (\<lambda>(Lx', Lu', loss'). loss') (loss_fn p))
                                                  (params st);
                                        ms = meters st;
                                        ms1 = ms\<lparr>losses := upd (losses ms) loss None,
                                                  losses_x := upd (losses_x ms) Lx None,
                                                  losses_u := upd (losses_u ms) Lu None\<rparr>;
                                        (p', o1) = optimizer_step c (optim st) (params st) grads;
                                        o2 = scheduler_step c o1;
                                        e' = (if args_use_ema a then ema_update c (ema_model st) p' s3
                                              else ema_model st)
                                    in Inr (loss,
                                            \<lparr>params = p', net_state = s3, optim = o2, ema_model = e',
                                             meters = ms1\<rparr>,
                                            pl, logits_x))))))"

text \<open>
  One iteration of the loop body after the two batches have been fetched. \<open>peer_sums\<close> are
  the contributions of the process group to the collective of this step (read in
  distributed mode only).
\<close>

definition train_step ::
  "('p, 's, 'o, 'e, 'g, 'x, 'f) components \<Rightarrow> ('m \<Rightarrow> real \<Rightarrow> real option \<Rightarrow> 'm) \<Rightarrow> args
     \<Rightarrow> ('p, 's, 'o, 'e, 'm) train_state \<Rightarrow> mat list \<Rightarrow> 'x list \<Rightarrow> nat list \<Rightarrow> 'x list \<Rightarrow> 'x list
     \<Rightarrow> nat list \<Rightarrow> py_error + (real \<times> ('p, 's, 'o, 'e, 'm) train_state)" where
  "train_step c upd a st peer_sums inputs_x targets_x inputs_u_w inputs_u_s targets_u_gt =
     bind_err (optimise c upd a st peer_sums inputs_x targets_x inputs_u_w inputs_u_s)
       (\<lambda>(loss, st', pl, logits_x).
          Inr (loss,
               st'\<lparr>meters := update_diagnostics upd (meters st') (pl_mask pl) (pl_targets_u pl)
                                targets_u_gt logits_x targets_x\<rparr>))"

section \<open>Fetching the batches (train.py, lines 424-445)\<close>

text \<open>
  \<open>next_batch it\<close> is \<open>it.next()\<close> on a DataLoader iterator: it raises, or it yields a
  batch and leaves the iterator advanced. \<open>iter_of loader\<close> is \<open>iter(loader)\<close>, which
  creates a new iterator or raises. The handler is a bare \<open>except:\<close>, so the first call
  is guarded against every exception; the two statements of the handler are not guarded.
\<close>

definition fetch ::
  "('l \<Rightarrow> py_error + 'it) \<Rightarrow> ('it \<Rightarrow> py_error + 'b \<times> 'it) \<Rightarrow> 'l \<Rightarrow> 'it \<Rightarrow> py_error + 'b \<times> 'it" where
  "fetch iter_of next_batch loader it =
     (case next_batch it of
        Inr (batch, it') \<Rightarrow> Inr (batch, it')
      | Inl _ \<Rightarrow> bind_err (iter_of loader) (\<lambda>it'. next_batch it'))"

text \<open>Lines 435-445: the labeled batch is fetched first, then the unlabeled one.\<close>

definition fetch_batches ::
  "('l \<Rightarrow> py_error + 'it) \<Rightarrow> ('it \<Rightarrow> py_error + 'b \<times> 'it) \<Rightarrow>
   ('k \<Rightarrow> py_error + 'jt) \<Rightarrow> ('jt \<Rightarrow> py_error + 'u \<times> 'jt) \<Rightarrow>
   'l \<Rightarrow> 'k \<Rightarrow> 'it \<Rightarrow> 'jt \<Rightarrow> py_error + ('b \<times> 'u \<times> 'it \<times> 'jt)" where
  "fetch_batches iter_x next_x iter_u next_u labeled_trainloader unlabeled_trainloader
       labeled_iter unlabeled_iter =
     bind_err (fetch iter_x next_x labeled_trainloader labeled_iter)
       (\<lambda>(batch_x, labeled_iter').
          bind_err (fetch iter_u next_u unlabeled_trainloader unlabeled_iter)
            (\<lambda>(batch_u, unlabeled_iter').
               Inr (batch_x, batch_u, labeled_iter', unlabeled_iter')))"

section \<open>Start epoch (train.py, lines 137, 367-376 and 427)\<close>

text \<open>
  The fields of a checkpoint that \<open>main\<close> copies into its own variables; the state
  dictionaries loaded into the models, the optimizer and the scheduler are left out.
  \<open>files\<close> maps a path to the checkpoint stored there, if it is a file.
\<close>

record checkpoint =
  ckpt_epoch :: int
  ckpt_best_acc :: real

text \<open>
  Lines 367-376, with the global \<open>best_acc\<close> passed in and returned: the assignment
  \<open>args.start_epoch = 0\<close>, then, when \<open>args.resume\<close> is a non-empty string, the assertion
  that it names a file and the values taken from the checkpoint.
\<close>

definition main_resume ::
  "(string \<Rightarrow> checkpoint option) \<Rightarrow> args \<Rightarrow> real \<Rightarrow> py_error + (args \<times> real)" where
  "main_resume files a best_acc =
     (let a1 = a\<lparr>args_start_epoch := 0\<rparr>
      in if args_resume a1 \<noteq> []
         then (case files (args_resume a1) of
                 None \<Rightarrow> Inl AssertionError
               | Some checkpoint \<Rightarrow>
                   Inr (a1\<lparr>args_start_epoch := ckpt_epoch checkpoint\<rparr>, ckpt_best_acc checkpoint))
         else Inr (a1, best_acc))"

text \<open>Line 427: \<open>range(args.start_epoch, args.epochs)\<close>.\<close>

definition epoch_range :: "args \<Rightarrow> int list" where
  "epoch_range a = [args_start_epoch a .. args_epochs a - 1]"

subsection \<open>Cosine schedule\<close>

lemma cos_nonpos_between: "pi / 2 \<le> x \<Longrightarrow> x \<le> 3 * pi / 2 \<Longrightarrow> cos x \<le> 0"
proof -
  assume a: "pi / 2 \<le> x" and b: "x \<le> 3 * pi / 2"
  have "0 \<le> cos (x - pi)"
    by (rule cos_ge_zero) (use a b in auto)
  moreover have "cos (x - pi) = - cos x"
    by (simp add: cos_diff)
  ultimately show ?thesis by simp
qed

lemma clipped_cos_antimono:
  assumes "0 \<le> a" "a \<le> b" "b \<le> 3 * pi / 2"
  shows "max 0 (cos b) \<le> max 0 (cos a)"
proof (cases "b \<le> pi")
  case True
  then have "cos b \<le> cos a"
    using assms by (intro cos_monotone_0_pi_le) auto
  then show ?thesis by auto
next
  case False
  then have "cos b \<le> 0"
    using assms by (intro cos_nonpos_between) auto
  then show ?thesis by auto
qed

lemma cosine_after_warmup:
  "num_warmup_epochs * num_steps_per_epoch \<le> s \<Longrightarrow>
   cosine_lr_lambda num_warmup_epochs num_training_epochs num_steps_per_epoch c s =
     max 0 (cos (pi * c * (real_of_int (s - num_warmup_epochs * num_steps_per_epoch) /
        real_of_int (max 1 (num_training_epochs * num_steps_per_epoch
                            - num_warmup_epochs * num_steps_per_epoch)))))"
  by (simp add: cosine_lr_lambda_def Let_def)

text \<open>
  C5 (as amended). For every step \<open>s \<ge> 0\<close>, with warmup_steps = warmup_epochs * steps_per_epoch
  and total_steps = total_epochs * steps_per_epoch: during warmup the multiplier is
  s / warmup_steps (hence 1/2 at step 5 when warmup_steps = 10); from warmup_steps on it is
  max(0, cos(pi * cycles * progress)) where progress divides by max(1, total_steps -
  warmup_steps), which is total_steps - warmup_steps whenever that is positive; it is never
  negative; and it is non-increasing from s to s' (warmup_steps \<le> s \<le> s') as long as
  cycles \<ge> 0 and cycles * progress(s') \<le> 3/2, which with the default cycles = 7/16
  covers every step up to total_steps.
\<close>

theorem cosine_schedule_amended:
  fixes we te spe s s' :: int and c :: real
  assumes "0 \<le> s"
  shows "(s < we * spe \<longrightarrow>
            cosine_lr_lambda we te spe c s = real_of_int s / real_of_int (we * spe))
       \<and> (we * spe = 10 \<and> s = 5 \<longrightarrow> cosine_lr_lambda we te spe c s = 1 / 2)
       \<and> (we * spe \<le> s \<longrightarrow>
            cosine_lr_lambda we te spe c s =
              max 0 (cos (pi * c * (real_of_int (s - we * spe) /
                                    real_of_int (max 1 (te * spe - we * spe))))))
       \<and> (we * spe \<le> s \<and> we * spe < te * spe \<longrightarrow>
            cosine_lr_lambda we te spe c s =
              max 0 (cos (pi * c * (real_of_int (s - we * spe) /
                                    real_of_int (te * spe - we * spe)))))
       \<and> 0 \<le> cosine_lr_lambda we te spe c s
       \<and> (we * spe \<le> s \<and> s \<le> s' \<and> 0 \<le> c
            \<and> 2 * c * real_of_int (s' - we * spe) \<le> 3 * real_of_int (max 1 (te * spe - we * spe)) \<longrightarrow>
            cosine_lr_lambda we te spe c s' \<le> cosine_lr_lambda we te spe c s)
       \<and> (we * spe \<le> s \<and> s \<le> s' \<and> s' \<le> te * spe \<longrightarrow>
            cosine_lr_lambda we te spe default_num_cycles s'
              \<le> cosine_lr_lambda we te spe default_num_cycles s)"
proof -
  let ?w = "we * spe" and ?T = "te * spe"
  let ?d = "real_of_int (max 1 (?T - ?w))"
  have dpos: "0 < ?d" by simp
  have warm: "s < ?w \<longrightarrow> cosine_lr_lambda we te spe c s = real_of_int s / real_of_int ?w"
  proof
    assume "s < ?w"
    then have "max 1 ?w = ?w" using assms by simp
    then show "cosine_lr_lambda we te spe c s = real_of_int s / real_of_int ?w"
      using \<open>s < ?w\<close> by (simp add: cosine_lr_lambda_def Let_def)
  qed
  have half: "?w = 10 \<and> s = 5 \<longrightarrow> cosine_lr_lambda we te spe c s = 1 / 2"
    by (simp add: cosine_lr_lambda_def Let_def)
  have after: "?w \<le> s \<longrightarrow> cosine_lr_lambda we te spe c s =
      max 0 (cos (pi * c * (real_of_int (s - ?w) / ?d)))"
    using cosine_after_warmup [of we spe s te c] by simp
  have after': "?w \<le> s \<and> ?w < ?T \<longrightarrow> cosine_lr_lambda we te spe c s =
      max 0 (cos (pi * c * (real_of_int (s - ?w) / real_of_int (?T - ?w))))"
  proof
    assume h: "?w \<le> s \<and> ?w < ?T"
    then have "max 1 (?T - ?w) = ?T - ?w" by simp
    then show "cosine_lr_lambda we te spe c s =
      max 0 (cos (pi * c * (real_of_int (s - ?w) / real_of_int (?T - ?w))))"
      using after h by simp
  qed
  have nonneg: "0 \<le> cosine_lr_lambda we te spe c s"
  proof (cases "s < ?w")
    case True
    then have "0 < real_of_int ?w" using assms by linarith
    then have "0 \<le> real_of_int s / real_of_int ?w" using assms by simp
    then show ?thesis using warm True by simp
  next
    case False
    then show ?thesis using after by simp
  qed
  have mono: "cosine_lr_lambda we te spe k s' \<le> cosine_lr_lambda we te spe k s"
    if h: "?w \<le> s" "s \<le> s'" "0 \<le> k"
      "2 * k * real_of_int (s' - ?w) \<le> 3 * ?d" for k
  proof -
    define x where "x = real_of_int (s - ?w)"
    define y where "y = real_of_int (s' - ?w)"
    define d where "d = ?d"
    have x0: "0 \<le> x" unfolding x_def by (rule of_int_nonneg) (use h(1) in simp)
    have xy: "x \<le> y" unfolding x_def y_def
      by (rule of_int_le_iff [THEN iffD2]) (use h(2) in simp)
    have d0: "0 < d" unfolding d_def by simp
    have y3: "2 * k * y \<le> 3 * d" using h(4) unfolding y_def d_def .
    define u where "u = x / d"
    define v where "v = y / d"
    have u0: "0 \<le> u" unfolding u_def using x0 d0 by simp
    have uv: "u \<le> v" unfolding u_def v_def using xy d0 by (simp add: divide_right_mono)
    have v3: "k * v \<le> 3 / 2" unfolding v_def using y3 d0 by (simp add: field_simps)
    have pk: "0 \<le> pi * k" using h(3) by simp
    have a0: "0 \<le> pi * k * u" using pk u0 by (rule mult_nonneg_nonneg)
    have ab: "pi * k * u \<le> pi * k * v" using uv pk by (rule mult_left_mono)
    have "pi * (k * v) \<le> pi * (3 / 2)" using v3 by (rule mult_left_mono) simp
    then have b3: "pi * k * v \<le> 3 * pi / 2" by (simp add: mult.assoc)
    have "max 0 (cos (pi * k * v)) \<le> max 0 (cos (pi * k * u))"
      using a0 ab b3 by (rule clipped_cos_antimono)
    then have "max 0 (cos (pi * k * (y / d))) \<le> max 0 (cos (pi * k * (x / d)))"
      unfolding u_def v_def .
    moreover have "cosine_lr_lambda we te spe k s = max 0 (cos (pi * k * (x / d)))"
      unfolding x_def d_def using cosine_after_warmup [of we spe s te k] h(1) by simp
    moreover have "cosine_lr_lambda we te spe k s' = max 0 (cos (pi * k * (y / d)))"
      unfolding y_def d_def using cosine_after_warmup [of we spe s' te k] h(1,2) by simp
    ultimately show ?thesis by simp
  qed
  have mono_default: "?w \<le> s \<and> s \<le> s' \<and> s' \<le> ?T \<longrightarrow>
      cosine_lr_lambda we te spe default_num_cycles s'
        \<le> cosine_lr_lambda we te spe default_num_cycles s"
  proof
    assume h: "?w \<le> s \<and> s \<le> s' \<and> s' \<le> ?T"
    define A where "A = real_of_int (s' - ?w)"
    define D where "D = ?d"
    have "s' - ?w \<le> max 1 (?T - ?w)" using h by linarith
    then have AD: "A \<le> D" unfolding A_def D_def by (rule of_int_le_iff [THEN iffD2])
    have A0: "0 \<le> A" unfolding A_def by (rule of_int_nonneg) (use h in linarith)
    have "2 * (7 / 16) * A \<le> 3 * D" using AD A0 by linarith
    then have "2 * default_num_cycles * real_of_int (s' - ?w) \<le> 3 * ?d"
      unfolding default_num_cycles_def A_def D_def .
    then show "cosine_lr_lambda we te spe default_num_cycles s'
        \<le> cosine_lr_lambda we te spe default_num_cycles s"
      using h by (intro mono) (simp_all add: default_num_cycles_def)
  qed
  show ?thesis
    using warm half after after' nonneg mono [of c] mono_default by blast
qed

theorem cosine_schedule_amended_witness:
  "cosine_lr_lambda 0 1 7 default_num_cycles 5 \<le> cosine_lr_lambda 0 1 7 default_num_cycles 3
   \<and> cosine_lr_lambda 1 2 10 default_num_cycles 5 = 1 / 2
   \<and> 0 \<le> cosine_lr_lambda 0 1 7 default_num_cycles 3"
  using cosine_schedule_amended [where s=3 and we=0 and spe=7 and c=default_num_cycles and te=1 and s'=5]
        cosine_schedule_amended [where s=5 and we=1 and spe=10 and c=default_num_cycles and te=2 and s'=5]
  by simp

text \<open>
  C5 as stated (non-increasing for every pair of steps after warmup) fails: with no warmup,
  total_steps = 7 and the default cycles, the multiplier is 0 at step 16 (the angle is pi)
  and 1 again at step 32 (the angle is 2 pi).
\<close>

theorem cosine_schedule_counterexample:
  "(0::int) * 7 \<le> 16 \<and> (16::int) \<le> 32 \<and>
   \<not> (cosine_lr_lambda 0 1 7 default_num_cycles 32 \<le> cosine_lr_lambda 0 1 7 default_num_cycles 16)"
proof -
  have a: "pi * (7 / 16) * (32 / 7) = 2 * pi" by simp
  have b: "pi * (7 / 16) * (16 / 7) = pi" by simp
  have "cosine_lr_lambda 0 1 7 default_num_cycles 32 = 1"
    by (simp add: cosine_lr_lambda_def default_num_cycles_def)
  moreover have "cosine_lr_lambda 0 1 7 default_num_cycles 16 = 0"
    by (simp add: cosine_lr_lambda_def default_num_cycles_def)
  ultimately show ?thesis by simp
qed

subsection \<open>Step schedule\<close>

lemma step_exp_is_count:
  fixes spe s :: int
  assumes "0 \<le> s"
  shows "(if s > 200 * spe then 4 else if s > 160 * spe then 3
          else if s > 120 * spe then 2 else if s > 60 * spe then 1 else (0::nat))
         = boundaries_passed spe default_decay_epochs s"
proof (cases "0 \<le> spe")
  case True
  then show ?thesis
    by (auto simp: boundaries_passed_def default_decay_epochs_def)
next
  case False
  then have "200 * spe < s" "160 * spe < s" "120 * spe < s" "60 * spe < s"
    using assms by auto
  then show ?thesis
    by (simp add: boundaries_passed_def default_decay_epochs_def)
qed

text \<open>
  C6. Step schedule with the default decay boundaries [60, 120, 160, 200] (epochs) and
  decay factor 0.1, for every step \<open>s \<ge> 0\<close>: during warmup the multiplier is
  s / warmup_steps; after warmup it is 0.1 ^ k, where k (at most 4) is the number of
  boundaries, converted to steps, that s has strictly passed; and a step beyond the
  epoch-200 boundary that is past the warmup (as every such step is when the warmup ends by
  epoch 200) has multiplier 0.1 ^ 4 = 1/10000.
\<close>

theorem step_schedule:
  fixes we te spe s :: int
  assumes "0 \<le> s"
  shows "(s < we * spe \<longrightarrow>
            step_lr_lambda we te spe default_decay_epochs default_decay_factor s
              = Inr (real_of_int s / real_of_int (we * spe)))
       \<and> (we * spe \<le> s \<longrightarrow>
            step_lr_lambda we te spe default_decay_epochs default_decay_factor s
              = Inr ((1 / 10) ^ boundaries_passed spe default_decay_epochs s))
       \<and> boundaries_passed spe default_decay_epochs s \<le> 4
       \<and> (we * spe \<le> s \<and> 200 * spe < s \<longrightarrow>
            step_lr_lambda we te spe default_decay_epochs default_decay_factor s
              = Inr (1 / 10000))
       \<and> (we \<le> 200 \<and> 0 \<le> spe \<and> 200 * spe < s \<longrightarrow>
            step_lr_lambda we te spe default_decay_epochs default_decay_factor s
              = Inr (1 / 10000))"
proof -
  let ?f = "step_lr_lambda we te spe default_decay_epochs default_decay_factor s"
  have warm: "s < we * spe \<longrightarrow> ?f = Inr (real_of_int s / real_of_int (we * spe))"
  proof
    assume h: "s < we * spe"
    then have "max 1 (we * spe) = we * spe" using assms by simp
    then show "?f = Inr (real_of_int s / real_of_int (we * spe))"
      using h by (simp add: step_lr_lambda_def Let_def)
  qed
  have code: "?f = Inr ((1 / 10) ^
       (if s > 200 * spe then 4 else if s > 160 * spe then 3
        else if s > 120 * spe then 2 else if s > 60 * spe then 1 else (0::nat)))"
    if "we * spe \<le> s"
    using that
    by (simp add: step_lr_lambda_def Let_def default_decay_epochs_def default_decay_factor_def)
  have after: "we * spe \<le> s \<longrightarrow> ?f = Inr ((1 / 10) ^ boundaries_passed spe default_decay_epochs s)"
    using code step_exp_is_count [OF assms, of spe] by simp
  have bound: "boundaries_passed spe default_decay_epochs s \<le> 4"
    using length_filter_le [of "\<lambda>e. e * spe < s" default_decay_epochs]
    by (simp add: boundaries_passed_def default_decay_epochs_def)
  have beyond: "we * spe \<le> s \<and> 200 * spe < s \<longrightarrow> ?f = Inr (1 / 10000)"
  proof
    assume h: "we * spe \<le> s \<and> 200 * spe < s"
    then have "?f = Inr ((1 / 10) ^ (4::nat))" using code by simp
    then show "?f = Inr (1 / 10000)" by (simp add: power_divide)
  qed
  have beyond': "we \<le> 200 \<and> 0 \<le> spe \<and> 200 * spe < s \<longrightarrow> ?f = Inr (1 / 10000)"
  proof
    assume h: "we \<le> 200 \<and> 0 \<le> spe \<and> 200 * spe < s"
    then have "we * spe \<le> 200 * spe" by (simp add: mult_right_mono)
    then show "?f = Inr (1 / 10000)" using h beyond by simp
  qed
  show ?thesis using warm after bound beyond beyond' by blast
qed

theorem step_schedule_witness:
  "(0::int) \<le> 20001 \<and> (5::int) * 100 \<le> 20001 \<and> (200::int) * 100 < 20001
   \<and> step_lr_lambda 5 300 100 default_decay_epochs default_decay_factor 20001 = Inr (1 / 10000)
   \<and> boundaries_passed 100 default_decay_epochs 20001 \<le> 4"
proof -
  have h: "(0::int) \<le> 20001" by simp
  have a: "(5::int) * 100 \<le> 20001" "(200::int) * 100 < 20001" by simp_all
  show ?thesis
    using step_schedule [OF h, where we = 5 and spe = 100 and te = 300] h a by blast
qed

subsection \<open>Interleaving\<close>

lemma length_concat_uniform:
  "(\<And>ys. ys \<in> set xss \<Longrightarrow> length ys = c) \<Longrightarrow> length (concat xss) = length xss * c"
  by (induction xss) auto

lemma nth_concat_uniform:
  "(\<And>ys. ys \<in> set xss \<Longrightarrow> length ys = c) \<Longrightarrow> i < length xss \<Longrightarrow> j < c \<Longrightarrow>
   concat xss ! (i * c + j) = xss ! i ! j"
proof (induction xss arbitrary: i)
  case Nil
  then show ?case by simp
next
  case (Cons a xss)
  have la: "length a = c" using Cons.prems(1) by simp
  show ?case
  proof (cases i)
    case 0
    then show ?thesis using la Cons.prems(3) by (simp add: nth_append)
  next
    case (Suc i')
    have "concat xss ! (i' * c + j) = xss ! i' ! j"
      using Cons.IH [of i'] Cons.prems Suc by simp
    then show ?thesis using la Suc by (simp add: nth_append)
  qed
qed

lemma view2_nth:
  "length xs = r * c \<Longrightarrow> i < r \<Longrightarrow> j < c \<Longrightarrow> view2 r c xs ! i ! j = xs ! (i * c + j)"
proof -
  assume h: "length xs = r * c" "i < r" "j < c"
  have "i * c + c \<le> r * c"
  proof -
    have "Suc i \<le> r" using h(2) by simp
    then have "Suc i * c \<le> r * c" by (rule mult_le_mono1)
    then show ?thesis by (simp add: add.commute)
  qed
  then show ?thesis using h by (simp add: view2_def)
qed

lemma transposed_view_length:
  "length (concat (transpose01 r c m)) = c * r"
proof -
  have "length (concat (transpose01 r c m)) = length (transpose01 r c m) * r"
    by (rule length_concat_uniform) (auto simp: transpose01_def)
  then show ?thesis by (simp add: transpose01_def)
qed

lemma transposed_view_nth:
  assumes "length xs = r * c" "i < r" "j < c"
  shows "concat (transpose01 r c (view2 r c xs)) ! (j * r + i) = xs ! (i * c + j)"
proof -
  let ?t = "transpose01 r c (view2 r c xs)"
  have "concat ?t ! (j * r + i) = ?t ! j ! i"
    by (rule nth_concat_uniform) (use assms in \<open>auto simp: transpose01_def\<close>)
  also have "\<dots> = view2 r c xs ! i ! j"
    using assms by (simp add: transpose01_def)
  also have "\<dots> = xs ! (i * c + j)"
    using assms by (rule view2_nth)
  finally show ?thesis .
qed

lemma interleave_roundtrip_lists:
  assumes "length x = n * k"
  shows "concat (transpose01 k n (view2 k n (concat (transpose01 n k (view2 n k x))))) = x"
proof (rule nth_equalityI)
  let ?y = "concat (transpose01 n k (view2 n k x))"
  have ly: "length ?y = k * n" by (rule transposed_view_length)
  show len: "length (concat (transpose01 k n (view2 k n ?y))) = length x"
    using assms by (simp add: transposed_view_length mult.commute)
  fix p assume "p < length (concat (transpose01 k n (view2 k n ?y)))"
  then have p: "p < n * k" using len assms by simp
  then have k0: "0 < k" by (cases k) auto
  define i where "i = p div k"
  define j where "j = p mod k"
  have pij: "p = i * k + j" by (simp add: i_def j_def)
  have j: "j < k" using k0 by (simp add: j_def)
  have i: "i < n" using p k0 by (simp add: i_def less_mult_imp_div_less)
  have "concat (transpose01 k n (view2 k n ?y)) ! (i * k + j) = ?y ! (j * n + i)"
    using ly j i by (rule transposed_view_nth)
  also have "\<dots> = x ! (i * k + j)"
    using assms i j by (rule transposed_view_nth)
  finally show "concat (transpose01 k n (view2 k n ?y)) ! p = x ! p"
    using pij by simp
qed

text \<open>
  C1. For every tensor \<open>x\<close> whose leading extent is a multiple of \<open>k > 0\<close>, interleave
  succeeds, keeps the number of slices, places slice \<open>i * k + j\<close> of \<open>x\<close> at position
  \<open>j * (N / k) + i\<close> (reshape to [N/k, k], transpose, flatten), and de_interleave of the
  result with the same \<open>k\<close> succeeds and returns \<open>x\<close> itself.
\<close>

theorem interleave_roundtrip:
  fixes k :: int
  assumes "0 < k" "k dvd int (length x)"
  shows "\<exists>y. interleave x k = Inr y \<and> length y = length x
           \<and> (\<forall>i < length x div nat k. \<forall>j < nat k.
                 y ! (j * (length x div nat k) + i) = x ! (i * nat k + j))
           \<and> de_interleave y k = Inr x"
proof -
  define m where "m = nat k"
  define n where "n = length x div m"
  have km: "k = int m" using assms(1) by (simp add: m_def)
  have "m dvd length x" using assms(2) unfolding km by (simp only: int_dvd_int_iff)
  then have lx: "length x = n * m" by (simp add: n_def)
  have m0: "0 < m" using assms(1) by (simp add: m_def)
  let ?y = "concat (transpose01 n m (view2 n m x))"
  have inf: "infer_dim (length x) k = Inr n"
    using assms m0 by (simp add: infer_dim_def n_def m_def)
  have a: "interleave x k = Inr ?y" by (simp add: interleave_def inf m_def [symmetric])
  have ly: "length ?y = length x" using lx by (simp add: transposed_view_length mult.commute)
  have b: "\<forall>i < n. \<forall>j < m. ?y ! (j * n + i) = x ! (i * m + j)"
    using lx by (simp add: transposed_view_nth)
  have "de_interleave ?y k = Inr (concat (transpose01 m n (view2 m n ?y)))"
    by (simp add: de_interleave_def ly inf m_def [symmetric])
  then have c: "de_interleave ?y k = Inr x"
    using interleave_roundtrip_lists [OF lx] by simp
  show ?thesis using a ly b c unfolding n_def m_def by blast
qed

theorem interleave_roundtrip_witness:
  "\<exists>y. interleave [0, 1, 2, 3, 4, 5 :: nat] 3 = Inr y \<and> de_interleave y 3 = Inr [0, 1, 2, 3, 4, 5]"
proof -
  have k: "(0::int) < 3" by simp
  have l: "int (length [0, 1, 2, 3, 4, 5 :: nat]) = 3 * 2" by simp
  have d: "(3::int) dvd int (length [0, 1, 2, 3, 4, 5 :: nat])" unfolding l by (rule dvd_triv_left)
  show ?thesis using interleave_roundtrip [OF k d] by blast
qed

subsection \<open>Pseudo-label generator\<close>

lemma shaped_nth: "shaped B K m \<Longrightarrow> i < B \<Longrightarrow> length (m ! i) = K"
  by (auto simp: shaped_def)

lemma map2_nth: "i < length xs \<Longrightarrow> i < length ys \<Longrightarrow> map2 f xs ys ! i = f (xs ! i) (ys ! i)"
  by simp

lemma map2_rows_shaped:
  assumes "shaped B K a" "shaped B K b"
  shows "shaped B K (map2 (map2 f) a b)"
proof -
  have "length (map2 f r r') = K" if "(r, r') \<in> set (zip a b)" for r r'
  proof -
    have "r \<in> set a" "r' \<in> set b"
      using that by (auto dest: set_zip_leftD set_zip_rightD)
    then show ?thesis using assms by (simp add: shaped_def)
  qed
  then show ?thesis using assms by (auto simp: shaped_def)
qed

lemma mat_mul_shaped: "shaped B K a \<Longrightarrow> shaped B K b \<Longrightarrow> shaped B K (mat_mul a b)"
  unfolding mat_mul_def by (rule map2_rows_shaped)

lemma mat_add_shaped: "shaped B K a \<Longrightarrow> shaped B K b \<Longrightarrow> shaped B K (mat_add a b)"
  unfolding mat_add_def by (rule map2_rows_shaped)

lemma mat_mul_nth:
  "shaped B K a \<Longrightarrow> shaped B K b \<Longrightarrow> i < B \<Longrightarrow> j < K \<Longrightarrow>
   mat_mul a b ! i ! j = a ! i ! j * b ! i ! j"
  by (simp add: shaped_def mat_mul_def)

lemma mat_add_nth:
  "shaped B K a \<Longrightarrow> shaped B K b \<Longrightarrow> i < B \<Longrightarrow> j < K \<Longrightarrow>
   mat_add a b ! i ! j = a ! i ! j + b ! i ! j"
  by (simp add: shaped_def mat_add_def)

lemma classifier_loop_folds:
  "classifier_loop F T fw n (m, sm, s) =
     (foldl mat_mul m (resampled_passes F T fw n s),
      foldl mat_add sm (resampled_passes F T fw n s),
      snd (snd (classifier_loop F T fw n (m, sm, s))))"
proof (induction n arbitrary: m sm s)
  case 0
  then show ?case by simp
next
  case (Suc n)
  obtain out s' where F: "F fw s = (out, s')" by (cases "F fw s")
  show ?case
    using Suc.IH [of "mat_mul m (softmax_T T out)" "mat_add sm (softmax_T T out)" s']
    by (simp add: F Let_def)
qed

lemma foldl_mat_mul_nth:
  "shaped B K m \<Longrightarrow> \<forall>P \<in> set Ps. shaped B K P \<Longrightarrow> i < B \<Longrightarrow> j < K \<Longrightarrow>
   shaped B K (foldl mat_mul m Ps) \<and>
   foldl mat_mul m Ps ! i ! j = m ! i ! j * prod_list (map (\<lambda>P. P ! i ! j) Ps)"
proof (induction Ps arbitrary: m)
  case Nil
  then show ?case by simp
next
  case (Cons P Ps)
  have sP: "shaped B K P" using Cons.prems(2) by simp
  have sm: "shaped B K (mat_mul m P)" using Cons.prems(1) sP by (rule mat_mul_shaped)
  have "shaped B K (foldl mat_mul (mat_mul m P) Ps) \<and>
        foldl mat_mul (mat_mul m P) Ps ! i ! j
          = mat_mul m P ! i ! j * prod_list (map (\<lambda>P. P ! i ! j) Ps)"
    using Cons.IH [OF sm] Cons.prems by simp
  then show ?case
    using mat_mul_nth [OF Cons.prems(1) sP Cons.prems(3,4)] by (simp add: mult.assoc)
qed

lemma foldl_mat_add_nth:
  "shaped B K m \<Longrightarrow> \<forall>P \<in> set Ps. shaped B K P \<Longrightarrow> i < B \<Longrightarrow> j < K \<Longrightarrow>
   shaped B K (foldl mat_add m Ps) \<and>
   foldl mat_add m Ps ! i ! j = m ! i ! j + sum_list (map (\<lambda>P. P ! i ! j) Ps)"
proof (induction Ps arbitrary: m)
  case Nil
  then show ?case by simp
next
  case (Cons P Ps)
  have sP: "shaped B K P" using Cons.prems(2) by simp
  have sm: "shaped B K (mat_add m P)" using Cons.prems(1) sP by (rule mat_add_shaped)
  have "shaped B K (foldl mat_add (mat_add m P) Ps) \<and>
        foldl mat_add (mat_add m P) Ps ! i ! j
          = mat_add m P ! i ! j + sum_list (map (\<lambda>P. P ! i ! j) Ps)"
    using Cons.IH [OF sm] Cons.prems by simp
  then show ?case
    using mat_add_nth [OF Cons.prems(1) sP Cons.prems(3,4)] by (simp add: add.assoc)
qed

lemma foldl_shaped_mul:
  "shaped B K m \<Longrightarrow> \<forall>P \<in> set Ps. shaped B K P \<Longrightarrow> shaped B K (foldl mat_mul m Ps)"
  by (induction Ps arbitrary: m) (auto intro: mat_mul_shaped)

lemma foldl_shaped_add:
  "shaped B K m \<Longrightarrow> \<forall>P \<in> set Ps. shaped B K P \<Longrightarrow> shaped B K (foldl mat_add m Ps)"
  by (induction Ps arbitrary: m) (auto intro: mat_add_shaped)

lemma length_resampled_passes: "length (resampled_passes F T fw n s) = n"
proof (induction n arbitrary: s)
  case 0
  then show ?case by simp
next
  case (Suc n)
  obtain out s' where F: "F fw s = (out, s')" by (cases "F fw s")
  show ?case using Suc.IH [of s'] by (simp add: F)
qed

lemma first_index_props:
  "v \<in> set xs \<Longrightarrow> first_index (\<lambda>w. w = v) xs < length xs
     \<and> xs ! first_index (\<lambda>w. w = v) xs = v
     \<and> (\<forall>j < first_index (\<lambda>w. w = v) xs. xs ! j \<noteq> v)"
proof (induction xs)
  case Nil
  then show ?case by simp
next
  case (Cons x xs)
  show ?case
  proof (cases "x = v")
    case True
    then show ?thesis by simp
  next
    case False
    then have "v \<in> set xs" using Cons.prems by simp
    then show ?thesis using Cons.IH False by (auto simp: nth_Cons split: nat.splits)
  qed
qed

lemma row_max_props:
  assumes "row \<noteq> []"
  shows "fst (row_max row) = Max (set row)"
    and "snd (row_max row) < length row"
    and "row ! snd (row_max row) = Max (set row)"
    and "\<forall>j < snd (row_max row). row ! j < Max (set row)"
proof -
  have mem: "Max (set row) \<in> set row" using assms by (intro Max_in) auto
  note fi = first_index_props [OF mem]
  show "fst (row_max row) = Max (set row)" by (simp add: row_max_def Let_def)
  show "snd (row_max row) < length row" using fi by (simp add: row_max_def Let_def)
  show "row ! snd (row_max row) = Max (set row)" using fi by (simp add: row_max_def Let_def)
  show "\<forall>j < snd (row_max row). row ! j < Max (set row)"
  proof (intro allI impI)
    fix j assume j: "j < snd (row_max row)"
    then have ne: "row ! j \<noteq> Max (set row)" using fi by (simp add: row_max_def Let_def)
    have "j < length row" using j fi by (simp add: row_max_def Let_def)
    then have "row ! j \<le> Max (set row)" by (intro Max_ge) auto
    then show "row ! j < Max (set row)" using ne by simp
  qed
qed

lemma confidence_shaped:
  assumes "shaped B K mul" "0 < K"
  shows "confidence \<tau> mul =
           Inr (map (\<lambda>row. fst (row_max row)) mul, map (\<lambda>row. snd (row_max row)) mul,
                map (\<lambda>m. if m \<ge> \<tau> then 1 else 0) (map (\<lambda>row. fst (row_max row)) mul))"
proof -
  have "\<not> (\<exists>row \<in> set mul. row = [])" using assms by (auto simp: shaped_def)
  then show ?thesis by (simp add: confidence_def torch_max_def bind_err_def)
qed

lemma pseudo_label_over_passes:
  fixes F :: "'f list \<Rightarrow> 's \<Rightarrow> mat \<times> 's" and C :: int
  assumes C: "1 \<le> C" and K: "0 < K"
    and sh: "\<forall>P \<in> set (passes F T C logits_u_w fw s). shaped B K P"
  shows "\<exists>pl s'. pseudo_label F T C \<tau> logits_u_w fw s = Inr (pl, s')
      \<and> length (passes F T C logits_u_w fw s) = nat C
      \<and> hd (passes F T C logits_u_w fw s) = softmax_T T logits_u_w
      \<and> (\<forall>i<B. \<forall>j<K. pl_mul pl ! i ! j
             = prod_list (map (\<lambda>P. P ! i ! j) (passes F T C logits_u_w fw s)))
      \<and> (\<forall>i<B. \<forall>j<K. pl_sum pl ! i ! j
             = sum_list (map (\<lambda>P. P ! i ! j) (passes F T C logits_u_w fw s)) / real_of_int C)
      \<and> length (pl_targets_u pl) = B \<and> length (pl_mask pl) = B
      \<and> (\<forall>i<B. pl_targets_u pl ! i < K
            \<and> pl_mul pl ! i ! (pl_targets_u pl ! i) = Max (set (pl_mul pl ! i))
            \<and> pl_mask pl ! i = (if Max (set (pl_mul pl ! i)) \<ge> \<tau> then 1 else 0))"
proof -
  define n where "n = nat (C - 1)"
  define p1 where "p1 = softmax_T T logits_u_w"
  define Ps where "Ps = resampled_passes F T fw n s"
  define mul where "mul = foldl mat_mul p1 Ps"
  define sm where "sm = foldl mat_add p1 Ps"
  define s' where "s' = snd (snd (classifier_loop F T fw n (p1, p1, s)))"
  define sm' where "sm' = map (map (\<lambda>v. v / real_of_int C)) sm"
  have pa: "passes F T C logits_u_w fw s = p1 # Ps"
    by (simp add: passes_def p1_def Ps_def n_def)
  have sp1: "shaped B K p1" and sPs: "\<forall>P \<in> set Ps. shaped B K P"
    using sh unfolding pa by simp_all
  have loop: "classifier_loop F T fw n (p1, p1, s) = (mul, sm, s')"
    unfolding mul_def sm_def s'_def Ps_def by (rule classifier_loop_folds)
  have smul: "shaped B K mul" unfolding mul_def using sp1 sPs by (rule foldl_shaped_mul)
  have ssm: "shaped B K sm" unfolding sm_def using sp1 sPs by (rule foldl_shaped_add)
  let ?mx = "map (\<lambda>row. fst (row_max row)) mul"
  let ?tg = "map (\<lambda>row. snd (row_max row)) mul"
  let ?msk = "map (\<lambda>m. if m \<ge> \<tau> then 1 else 0) ?mx"
  let ?pl = "\<lparr>pl_mul = mul, pl_sum = sm', pl_max_probs = ?mx,
              pl_targets_u = ?tg, pl_mask = ?msk\<rparr>"
  have conf: "confidence \<tau> mul = Inr (?mx, ?tg, ?msk)"
    using smul K by (rule confidence_shaped)
  have res: "pseudo_label F T C \<tau> logits_u_w fw s = Inr (?pl, s')"
    unfolding pseudo_label_def
    by (simp add: Let_def p1_def [symmetric] n_def [symmetric] loop conf bind_err_def
        sm'_def [symmetric])
  have len: "length (passes F T C logits_u_w fw s) = nat C"
    using C by (simp add: pa Ps_def length_resampled_passes n_def)
  have first: "hd (passes F T C logits_u_w fw s) = softmax_T T logits_u_w"
    by (simp add: pa p1_def)
  have prod: "\<forall>i<B. \<forall>j<K. mul ! i ! j = prod_list (map (\<lambda>P. P ! i ! j) (p1 # Ps))"
    unfolding mul_def using foldl_mat_mul_nth [OF sp1 sPs] by simp
  have sum: "\<forall>i<B. \<forall>j<K. sm' ! i ! j = sum_list (map (\<lambda>P. P ! i ! j) (p1 # Ps)) / real_of_int C"
  proof (intro allI impI)
    fix i j assume i: "i < B" and j: "j < K"
    have "length sm = B" "length (sm ! i) = K"
      using ssm i by (simp_all add: shaped_def)
    then have "sm' ! i ! j = sm ! i ! j / real_of_int C"
      using i j by (simp add: sm'_def)
    then show "sm' ! i ! j = sum_list (map (\<lambda>P. P ! i ! j) (p1 # Ps)) / real_of_int C"
      unfolding sm_def using foldl_mat_add_nth [OF sp1 sPs i j] by simp
  qed
  have lmul: "length mul = B" using smul by (simp add: shaped_def)
  have rows: "\<forall>i<B. ?tg ! i < K
      \<and> mul ! i ! (?tg ! i) = Max (set (mul ! i))
      \<and> ?msk ! i = (if Max (set (mul ! i)) \<ge> \<tau> then 1 else 0)"
  proof (intro allI impI)
    fix i assume i: "i < B"
    have lr: "length (mul ! i) = K" using smul i by (rule shaped_nth)
    then have ne: "mul ! i \<noteq> []" using K by auto
    show "?tg ! i < K \<and> mul ! i ! (?tg ! i) = Max (set (mul ! i))
        \<and> ?msk ! i = (if Max (set (mul ! i)) \<ge> \<tau> then 1 else 0)"
      using row_max_props [OF ne] i lmul lr by simp
  qed
  show ?thesis
    apply (rule exI [of _ ?pl], rule exI [of _ s'])
    using res len first prod sum lmul rows unfolding pa by simp
qed

lemma softmax_T_shaped: "shaped B K x \<Longrightarrow> shaped B K (softmax_T T x)"
  by (auto simp: shaped_def softmax_T_def softmax_def)

lemma softmax_T_nth:
  assumes "shaped B K x" "i < B" "j < K"
  shows "softmax_T T x ! i ! j = exp (x ! i ! j / T) / (\<Sum>j'<K. exp (x ! i ! j' / T))"
proof -
  have lx: "length x = B" and lr: "length (x ! i) = K"
    using assms(1,2) by (simp_all add: shaped_def)
  have "sum_list (map exp (map (\<lambda>z. z / T) (x ! i)))
      = (\<Sum>j' = 0..<length (map exp (map (\<lambda>z. z / T) (x ! i))).
           map exp (map (\<lambda>z. z / T) (x ! i)) ! j')"
    by (rule sum_list_sum_nth)
  also have "\<dots> = (\<Sum>j' = 0..<K. exp (x ! i ! j' / T))"
    using lr by (intro sum.cong) auto
  finally have s: "sum_list (map exp (map (\<lambda>z. z / T) (x ! i))) = (\<Sum>j'<K. exp (x ! i ! j' / T))"
    by (simp add: lessThan_atLeast0)
  have s': "sum_list (map (exp \<circ> (\<lambda>z. z / T)) (x ! i)) = (\<Sum>j'<K. exp (x ! i ! j' / T))"
    using s by simp
  show ?thesis
    using lx lr assms(2,3) by (simp add: softmax_T_def softmax_def s')
qed

lemma resampled_passes_outputs:
  "resampled_passes F T fw n s = map (softmax_T T) (classifier_outputs F fw n s)"
proof (induction n arbitrary: s)
  case 0
  then show ?case by simp
next
  case (Suc n)
  obtain out s' where F: "F fw s = (out, s')" by (cases "F fw s")
  show ?case using Suc.IH [of s'] by (simp add: F)
qed

lemma length_classifier_outputs: "length (classifier_outputs F fw n s) = n"
proof (induction n arbitrary: s)
  case 0
  then show ?case by simp
next
  case (Suc n)
  obtain out s' where F: "F fw s = (out, s')" by (cases "F fw s")
  show ?case using Suc.IH [of s'] by (simp add: F)
qed

lemma classifier_outputs_first:
  "0 < n \<Longrightarrow> classifier_outputs F fw n s ! 0 = fst (F fw s)"
  by (cases n) (auto split: prod.splits)

lemma classifier_outputs_second:
  "1 < n \<Longrightarrow> classifier_outputs F fw n s ! 1 = fst (F fw (snd (F fw s)))"
proof -
  assume "1 < n"
  then obtain m where n: "n = Suc (Suc m)" by (cases n; cases "n - 1") auto
  show ?thesis unfolding n by (auto split: prod.splits)
qed

text \<open>
  C2. For every threshold, every temperature \<open>T \<noteq> 0\<close> and every classifier count
  \<open>C \<ge> 1\<close>, on logits of shape \<open>[B, K]\<close> with \<open>K > 0\<close>: the generator succeeds; it
  combines \<open>C\<close> passes, the first over the weak-branch logits of the interleaved forward
  and the other \<open>C - 1\<close> over the logits of successive re-runs of the classifier head on
  the cached features (the first re-run from the model state the forward left, the second
  from the state the first left); entry \<open>(i, j)\<close> of a pass over logits \<open>x\<close> is
  \<open>exp (x i j / T)\<close> divided by the sum over the classes \<open>j'\<close> of \<open>exp (x i j' / T)\<close>;
  \<open>pseudo_label_mul\<close> is the entrywise product of the passes and \<open>pseudo_label_sum\<close>
  their entrywise sum divided by \<open>C\<close>; the hard target of a row is an index at which the
  row of \<open>pseudo_label_mul\<close> takes its maximum, and the mask is 1 where that maximum is
  at least the threshold and 0 otherwise. In particular the row [0.96, 0.02, 0.02] with
  threshold 0.95 gives mask 1 and target 0, and a row with maximum 0.80 gives mask 0.
\<close>

theorem pseudo_label_generator:
  fixes F :: "'f list \<Rightarrow> 's \<Rightarrow> mat \<times> 's" and C :: int
  assumes C: "1 \<le> C" and K: "0 < K" and T: "T \<noteq> 0"
    and shl: "shaped B K logits_u_w"
    and sho: "\<forall>out \<in> set (classifier_outputs F fw (nat (C - 1)) s). shaped B K out"
  shows "\<exists>pl s'. pseudo_label F T C \<tau> logits_u_w fw s = Inr (pl, s')
      \<and> length (logits_u_w # classifier_outputs F fw (nat (C - 1)) s) = nat C
      \<and> (2 \<le> C \<longrightarrow> classifier_outputs F fw (nat (C - 1)) s ! 0 = fst (F fw s))
      \<and> (3 \<le> C \<longrightarrow> classifier_outputs F fw (nat (C - 1)) s ! 1 = fst (F fw (snd (F fw s))))
      \<and> (\<forall>i<B. \<forall>j<K. pl_mul pl ! i ! j
             = (\<Prod>x\<leftarrow>logits_u_w # classifier_outputs F fw (nat (C - 1)) s.
                  exp (x ! i ! j / T) / (\<Sum>j'<K. exp (x ! i ! j' / T))))
      \<and> (\<forall>i<B. \<forall>j<K. pl_sum pl ! i ! j
             = (\<Sum>x\<leftarrow>logits_u_w # classifier_outputs F fw (nat (C - 1)) s.
                  exp (x ! i ! j / T) / (\<Sum>j'<K. exp (x ! i ! j' / T))) / real_of_int C)
      \<and> length (pl_targets_u pl) = B \<and> length (pl_mask pl) = B
      \<and> (\<forall>i<B. pl_targets_u pl ! i < K
            \<and> pl_mul pl ! i ! (pl_targets_u pl ! i) = Max (set (pl_mul pl ! i))
            \<and> pl_mask pl ! i = (if Max (set (pl_mul pl ! i)) \<ge> \<tau> then 1 else 0))
      \<and> confidence (95 / 100) [[96 / 100, 2 / 100, 2 / 100]] = Inr ([96 / 100], [0], [1])
      \<and> (\<forall>row. row \<noteq> [] \<and> Max (set row) = 80 / 100 \<longrightarrow>
            (\<exists>mx tg. confidence (95 / 100) [row] = Inr (mx, tg, [0])))"
proof -
  define outs where "outs = classifier_outputs F fw (nat (C - 1)) s"
  define xs where "xs = logits_u_w # outs"
  have pa: "passes F T C logits_u_w fw s = map (softmax_T T) xs"
    by (simp add: passes_def resampled_passes_outputs outs_def xs_def)
  have shx: "\<forall>x \<in> set xs. shaped B K x" using shl sho by (simp add: xs_def outs_def)
  have shp: "\<forall>P \<in> set (passes F T C logits_u_w fw s). shaped B K P"
    unfolding pa using shx by (auto intro: softmax_T_shaped)
  obtain pl s' where run: "pseudo_label F T C \<tau> logits_u_w fw s = Inr (pl, s')"
    and mul: "\<forall>i<B. \<forall>j<K. pl_mul pl ! i ! j
             = prod_list (map (\<lambda>P. P ! i ! j) (passes F T C logits_u_w fw s))"
    and sm: "\<forall>i<B. \<forall>j<K. pl_sum pl ! i ! j
             = sum_list (map (\<lambda>P. P ! i ! j) (passes F T C logits_u_w fw s)) / real_of_int C"
    and len: "length (pl_targets_u pl) = B" "length (pl_mask pl) = B"
    and rows: "\<forall>i<B. pl_targets_u pl ! i < K
            \<and> pl_mul pl ! i ! (pl_targets_u pl ! i) = Max (set (pl_mul pl ! i))
            \<and> pl_mask pl ! i = (if Max (set (pl_mul pl ! i)) \<ge> \<tau> then 1 else 0)"
    using pseudo_label_over_passes [OF C K shp, of \<tau>] by blast
  have entry: "map (\<lambda>P. P ! i ! j) (map (softmax_T T) xs)
      = map (\<lambda>x. exp (x ! i ! j / T) / (\<Sum>j'<K. exp (x ! i ! j' / T))) xs"
    if "i < B" "j < K" for i j
  proof -
    have "softmax_T T x ! i ! j = exp (x ! i ! j / T) / (\<Sum>j'<K. exp (x ! i ! j' / T))"
      if "x \<in> set xs" for x
      using shx that \<open>i < B\<close> \<open>j < K\<close> by (intro softmax_T_nth) auto
    then show ?thesis by simp
  qed
  have mul': "\<forall>i<B. \<forall>j<K. pl_mul pl ! i ! j
      = (\<Prod>x\<leftarrow>xs. exp (x ! i ! j / T) / (\<Sum>j'<K. exp (x ! i ! j' / T)))"
  proof (intro allI impI)
    fix i j assume i: "i < B" and j: "j < K"
    have "pl_mul pl ! i ! j = prod_list (map (\<lambda>P. P ! i ! j) (map (softmax_T T) xs))"
      using mul i j unfolding pa by blast
    then show "pl_mul pl ! i ! j
        = (\<Prod>x\<leftarrow>xs. exp (x ! i ! j / T) / (\<Sum>j'<K. exp (x ! i ! j' / T)))"
      unfolding entry [OF i j] .
  qed
  have sm': "\<forall>i<B. \<forall>j<K. pl_sum pl ! i ! j
      = (\<Sum>x\<leftarrow>xs. exp (x ! i ! j / T) / (\<Sum>j'<K. exp (x ! i ! j' / T))) / real_of_int C"
  proof (intro allI impI)
    fix i j assume i: "i < B" and j: "j < K"
    have "pl_sum pl ! i ! j
        = sum_list (map (\<lambda>P. P ! i ! j) (map (softmax_T T) xs)) / real_of_int C"
      using sm i j unfolding pa by blast
    then show "pl_sum pl ! i ! j
        = (\<Sum>x\<leftarrow>xs. exp (x ! i ! j / T) / (\<Sum>j'<K. exp (x ! i ! j' / T))) / real_of_int C"
      unfolding entry [OF i j] .
  qed
  have lxs: "length xs = nat C"
    using C by (simp add: xs_def outs_def length_classifier_outputs)
  have o1: "2 \<le> C \<longrightarrow> outs ! 0 = fst (F fw s)"
  proof
    assume "2 \<le> C"
    then have "0 < nat (C - 1)" by simp
    then show "outs ! 0 = fst (F fw s)" unfolding outs_def by (rule classifier_outputs_first)
  qed
  have o2: "3 \<le> C \<longrightarrow> outs ! 1 = fst (F fw (snd (F fw s)))"
  proof
    assume "3 \<le> C"
    then have "1 < nat (C - 1)" by simp
    then show "outs ! 1 = fst (F fw (snd (F fw s)))"
      unfolding outs_def by (rule classifier_outputs_second)
  qed
  have ex1: "confidence (95 / 100) [[96 / 100, 2 / 100, 2 / 100]] = Inr ([96 / 100], [0], [1])"
    by (simp add: confidence_def torch_max_def bind_err_def row_max_def)
  have ex2: "\<forall>row. row \<noteq> [] \<and> Max (set row) = 80 / 100 \<longrightarrow>
            (\<exists>mx tg. confidence (95 / 100) [row] = Inr (mx, tg, [0]))"
    by (simp add: confidence_def torch_max_def bind_err_def row_max_def Let_def)
  note facts = run lxs o1 o2 mul' sm' len rows ex1 ex2
  show ?thesis
    using facts [unfolded xs_def outs_def]
    by (intro exI [of _ pl] exI [of _ s'] conjI) assumption+
qed

theorem pseudo_label_generator_witness:
  "\<exists>pl s'. pseudo_label (\<lambda>fw s. ([[0, 0]], Suc s)) 2 2 (95 / 100) [[0, 0]] [()] (0::nat) = Inr (pl, s')
     \<and> pl_mul pl ! 0 ! 0 = 1 / 4 \<and> pl_sum pl ! 0 ! 0 = 1 / 2
     \<and> length (pl_targets_u pl) = 1 \<and> length (pl_mask pl) = 1"
proof -
  have C: "(1::int) \<le> 2" by simp
  have K: "(0::nat) < 2" by simp
  have T: "(2::real) \<noteq> 0" by simp
  have n: "nat (2 - 1) = Suc 0" by simp
  have shl: "shaped 1 2 [[0, 0 :: real]]" by (simp add: shaped_def)
  have sho: "\<forall>out \<in> set (classifier_outputs (\<lambda>fw s. ([[0, 0]], Suc s)) [()] (nat (2 - 1)) (0::nat)).
      shaped 1 2 out"
    by (simp add: n shaped_def)
  have two: "{..<2::nat} = {0, 1}" by auto
  show ?thesis
    using pseudo_label_generator [OF C K T shl sho, of "95 / 100"]
    by (auto simp: n two)
qed

subsection \<open>Depict targets\<close>

lemma sum_list_divide_const: "sum_list (map (\<lambda>v. v / c) xs) = sum_list xs / (c::real)"
  by (induction xs) (simp_all add: add_divide_distrib)

lemma sum_list_map2_div_pos:
  "length row = length denom \<Longrightarrow> \<forall>v \<in> set row. 0 \<le> v \<Longrightarrow> \<forall>d \<in> set denom. 0 < d \<Longrightarrow>
   (0 \<le> sum_list (map2 (/) row denom))
   \<and> ((\<exists>v \<in> set row. 0 < v) \<longrightarrow> 0 < sum_list (map2 (/) row (denom :: real list)))"
proof (induction row denom rule: list_induct2)
  case Nil
  then show ?case by simp
next
  case (Cons x xs d ds)
  have ih: "0 \<le> sum_list (map2 (/) xs ds)"
    "(\<exists>v \<in> set xs. 0 < v) \<longrightarrow> 0 < sum_list (map2 (/) xs ds)"
    using Cons by simp_all
  have d: "0 < d" and x: "0 \<le> x" using Cons.prems by simp_all
  have xd: "0 \<le> x / d" using x d by simp
  show ?case
  proof (intro conjI impI)
    show "0 \<le> sum_list (map2 (/) (x # xs) (d # ds))" using xd ih(1) by simp
    assume "\<exists>v \<in> set (x # xs). 0 < v"
    then consider "0 < x" | "\<exists>v \<in> set xs. 0 < v" by auto
    then show "0 < sum_list (map2 (/) (x # xs) (d # ds))"
    proof cases
      case 1
      then have "0 < x / d" using d by simp
      then show ?thesis using ih(1) by simp
    next
      case 2
      then have "0 < sum_list (map2 (/) xs ds)" using ih(2) by simp
      then show ?thesis using xd by simp
    qed
  qed
qed

lemma normalised_row_sums_to_one:
  "0 < sum_list row \<Longrightarrow> sum_list (map (\<lambda>v. v / sum_list row) row) = (1::real)"
  by (simp add: sum_list_divide_const)

lemma col_sums_length: "shaped B K m \<Longrightarrow> 0 < B \<Longrightarrow> length (col_sums m) = K"
  by (cases m) (auto simp: col_sums_def shaped_def)

lemma depict_targets_rows:
  assumes sh: "shaped B K p" and B: "0 < B"
    and nonneg: "\<forall>row \<in> set p. \<forall>v \<in> set row. 0 \<le> v"
    and rows: "\<forall>row \<in> set p. \<exists>v \<in> set row. 0 < v"
    and cols: "\<forall>c \<in> set (col_sums t). 0 < c"
    and lt: "length (col_sums t) = K"
  shows "shaped B K (depict_targets p t) \<and> (\<forall>row \<in> set (depict_targets p t). sum_list row = 1)"
proof -
  define denom where "denom = map sqrt (col_sums t)"
  have ld: "length denom = K" using lt by (simp add: denom_def)
  have dpos: "\<forall>d \<in> set denom. 0 < d" using cols by (auto simp: denom_def)
  have dt: "depict_targets p t =
      map (\<lambda>row. map (\<lambda>v. v / sum_list row) row) (map (\<lambda>row. map2 (/) row denom) p)"
    by (simp add: depict_targets_def Let_def denom_def)
  have one: "sum_list (map (\<lambda>v. v / sum_list (map2 (/) row denom)) (map2 (/) row denom)) = 1"
    and len: "length (map (\<lambda>v. v / sum_list (map2 (/) row denom)) (map2 (/) row denom)) = K"
    if "row \<in> set p" for row
  proof -
    have l: "length row = length denom" using sh that ld by (simp add: shaped_def)
    have "0 < sum_list (map2 (/) row denom)"
      using sum_list_map2_div_pos [OF l] nonneg rows dpos that by blast
    then show "sum_list (map (\<lambda>v. v / sum_list (map2 (/) row denom)) (map2 (/) row denom)) = 1"
      by (rule normalised_row_sums_to_one)
    show "length (map (\<lambda>v. v / sum_list (map2 (/) row denom)) (map2 (/) row denom)) = K"
      using l ld by simp
  qed
  have "length (depict_targets p t) = B" using sh by (simp add: dt shaped_def)
  then show ?thesis using one len unfolding dt shaped_def by auto
qed

lemma sum_list_map2_nth:
  "length xs = n \<Longrightarrow> length ys = n \<Longrightarrow>
   sum_list (map2 f xs ys) = (\<Sum>i<n. (f (xs ! i) (ys ! i) :: real))"
proof -
  assume h: "length xs = n" "length ys = n"
  have "sum_list (map2 f xs ys) = (\<Sum>i = 0..<length (map2 f xs ys). map2 f xs ys ! i)"
    by (rule sum_list_sum_nth)
  also have "\<dots> = (\<Sum>i = 0..<n. f (xs ! i) (ys ! i))"
    using h by (intro sum.cong) auto
  finally show ?thesis by (simp add: lessThan_atLeast0)
qed

lemma depict_loss_formula:
  assumes a: "shaped B K aux" and l: "shaped B K logits_u" and m: "length msk = B"
  shows "depict_loss aux logits_u msk =
     - ((\<Sum>i<B. (\<Sum>j<K. aux ! i ! j * log_softmax (logits_u ! i) ! j) * msk ! i) / real B)"
proof -
  let ?ls = "map log_softmax logits_u"
  let ?rows = "map sum_list (mat_mul aux ?ls)"
  have sls: "shaped B K ?ls" using l by (auto simp: shaped_def log_softmax_def)
  have lr: "length ?rows = B" using a sls by (simp add: mat_mul_def shaped_def)
  have row: "?rows ! i = (\<Sum>j<K. aux ! i ! j * log_softmax (logits_u ! i) ! j)" if "i < B" for i
  proof -
    have la: "length (aux ! i) = K" using a that by (simp add: shaped_def)
    have ll: "length (log_softmax (logits_u ! i)) = K"
      using l that by (simp add: shaped_def log_softmax_def)
    have "?rows ! i = sum_list (map2 (*) (aux ! i) (log_softmax (logits_u ! i)))"
      using a l that by (simp add: mat_mul_def shaped_def)
    then show ?thesis using sum_list_map2_nth [OF la ll] by simp
  qed
  have "sum_list (map2 (*) ?rows msk) = (\<Sum>i<B. ?rows ! i * msk ! i)"
    using lr m by (rule sum_list_map2_nth)
  also have "\<dots> = (\<Sum>i<B. (\<Sum>j<K. aux ! i ! j * log_softmax (logits_u ! i) ! j) * msk ! i)"
    using row by (intro sum.cong) auto
  finally show ?thesis using lr m by (simp add: depict_loss_def mean_def)
qed

lemma col_sums_nth:
  assumes "shaped B K m" "0 < B" "j < K"
  shows "col_sums m ! j = (\<Sum>r<B. m ! r ! j)"
proof -
  obtain r rs where m: "m = r # rs" using assms(1,2) by (cases m) (auto simp: shaped_def)
  have lr: "length r = K" using assms(1) m by (simp add: shaped_def)
  have "col_sums m ! j = sum_list (map (\<lambda>row. row ! j) m)"
    using assms(3) lr by (simp add: col_sums_def m)
  also have "\<dots> = (\<Sum>i = 0..<length m. m ! i ! j)"
    by (simp add: sum_list_sum_nth)
  finally show ?thesis using assms(1) by (simp add: shaped_def lessThan_atLeast0)
qed

lemma depict_targets_nth:
  assumes sh: "shaped B K p" and lt: "length (col_sums t) = K" and i: "i < B" and j: "j < K"
  shows "depict_targets p t ! i ! j =
     (p ! i ! j / sqrt (col_sums t ! j)) / (\<Sum>j'<K. p ! i ! j' / sqrt (col_sums t ! j'))"
proof -
  define denom where "denom = map sqrt (col_sums t)"
  have ld: "length denom = K" using lt by (simp add: denom_def)
  have lp: "length p = B" and lr: "length (p ! i) = K" using sh i by (simp_all add: shaped_def)
  have s: "sum_list (map2 (/) (p ! i) denom) = (\<Sum>j'<K. p ! i ! j' / denom ! j')"
    using lr ld by (rule sum_list_map2_nth)
  have "depict_targets p t ! i ! j
      = (p ! i ! j / denom ! j) / sum_list (map2 (/) (p ! i) denom)"
    using lp lr ld i j by (simp add: depict_targets_def Let_def denom_def [symmetric])
  also have "\<dots> = (p ! i ! j / denom ! j) / (\<Sum>j'<K. p ! i ! j' / denom ! j')"
    by (simp only: s)
  also have "\<dots> = (p ! i ! j / sqrt (col_sums t ! j)) / (\<Sum>j'<K. p ! i ! j' / sqrt (col_sums t ! j'))"
    using lt j by (simp add: denom_def)
  finally show ?thesis .
qed

text \<open>
  C3. Depict method on a single process (\<open>local_rank = -1\<close>), for a batch
  \<open>pseudo_label_sum\<close> of shape \<open>[B, K]\<close>, \<open>B > 0\<close>, that is not degenerate: its entries
  are non-negative and no row and no column is all zero (as is every batch that the
  generator produces, see \<open>generated_sum_nondegenerate\<close> below). Entry \<open>(i, j)\<close> of
  \<open>targets_u_aux\<close> is \<open>pseudo_label_sum\<close> divided by the square root of the sum of column
  \<open>j\<close> over the batch, divided by the sum of row \<open>i\<close> of these quotients; every row of
  \<open>targets_u_aux\<close> sums to 1; and the unsupervised loss is the negative mean over the
  batch of the mask times the sum over the classes of \<open>targets_u_aux * log_softmax(logits_u)\<close>.
\<close>

theorem depict_single_process:
  assumes sh: "shaped B K (pl_sum pl)" and B: "0 < B"
    and nonneg: "\<forall>row \<in> set (pl_sum pl). \<forall>v \<in> set row. 0 \<le> v"
    and rows: "\<forall>row \<in> set (pl_sum pl). \<exists>v \<in> set row. 0 < v"
    and cols: "\<forall>c \<in> set (col_sums (pl_sum pl)). 0 < c"
    and l: "shaped B K logits_u" and m: "length (pl_mask pl) = B"
  shows "\<exists>aux. unsup_target Depict (-1) world_size rank peer_sums pl = Inr (Soft aux)
      \<and> (\<forall>i<B. \<forall>j<K. aux ! i ! j =
            (pl_sum pl ! i ! j / sqrt (\<Sum>r<B. pl_sum pl ! r ! j))
            / (\<Sum>j'<K. pl_sum pl ! i ! j' / sqrt (\<Sum>r<B. pl_sum pl ! r ! j')))
      \<and> (\<forall>row \<in> set aux. sum_list row = 1)
      \<and> unsup_loss (Soft aux) (pl_mask pl) logits_u =
          Inr (- ((\<Sum>i<B. (\<Sum>j<K. aux ! i ! j * log_softmax (logits_u ! i) ! j) * pl_mask pl ! i)
                  / real B))"
proof -
  let ?p = "pl_sum pl"
  let ?aux = "depict_targets ?p ?p"
  have lc: "length (col_sums ?p) = K" using sh B by (rule col_sums_length)
  have tgt: "unsup_target Depict (-1) world_size rank peer_sums pl = Inr (Soft ?aux)"
    by (simp add: unsup_target_def bind_err_def)
  have r: "shaped B K ?aux \<and> (\<forall>row \<in> set ?aux. sum_list row = 1)"
    using sh B nonneg rows cols lc by (rule depict_targets_rows)
  have entries: "\<forall>i<B. \<forall>j<K. ?aux ! i ! j =
            (?p ! i ! j / sqrt (\<Sum>r<B. ?p ! r ! j))
            / (\<Sum>j'<K. ?p ! i ! j' / sqrt (\<Sum>r<B. ?p ! r ! j'))"
  proof (intro allI impI)
    fix i j assume i: "i < B" and j: "j < K"
    have "(\<Sum>j'<K. ?p ! i ! j' / sqrt (col_sums ?p ! j'))
        = (\<Sum>j'<K. ?p ! i ! j' / sqrt (\<Sum>r<B. ?p ! r ! j'))"
      using col_sums_nth [OF sh B] by (intro sum.cong) auto
    then show "?aux ! i ! j = (?p ! i ! j / sqrt (\<Sum>r<B. ?p ! r ! j))
            / (\<Sum>j'<K. ?p ! i ! j' / sqrt (\<Sum>r<B. ?p ! r ! j'))"
      using depict_targets_nth [OF sh lc i j] col_sums_nth [OF sh B j] by simp
  qed
  have loss: "unsup_loss (Soft ?aux) (pl_mask pl) logits_u =
          Inr (- ((\<Sum>i<B. (\<Sum>j<K. ?aux ! i ! j * log_softmax (logits_u ! i) ! j) * pl_mask pl ! i)
                  / real B))"
    using depict_loss_formula [OF conjunct1 [OF r] l m] by (simp add: unsup_loss_def)
  show ?thesis using tgt entries r loss by blast
qed

theorem depict_single_process_witness:
  "\<exists>aux. unsup_target Depict (-1) 1 0 []
      \<lparr>pl_mul = [[1 / 2, 1 / 2]], pl_sum = [[1 / 2, 1 / 2]], pl_max_probs = [1 / 2],
       pl_targets_u = [0], pl_mask = [0]\<rparr> = Inr (Soft aux)
     \<and> (\<forall>row \<in> set aux. sum_list row = 1)"
proof -
  let ?pl = "\<lparr>pl_mul = [[1 / 2, 1 / 2]], pl_sum = [[1 / 2, 1 / 2]], pl_max_probs = [1 / 2],
       pl_targets_u = [0], pl_mask = [0]\<rparr>"
  have sh: "shaped 1 2 (pl_sum ?pl)" by (simp add: shaped_def)
  have B: "(0::nat) < 1" by simp
  have nonneg: "\<forall>row \<in> set (pl_sum ?pl). \<forall>v \<in> set row. 0 \<le> v" by simp
  have rows: "\<forall>row \<in> set (pl_sum ?pl). \<exists>v \<in> set row. 0 < v"
    by (intro ballI bexI [of _ "1 / 2"]) auto
  have cols: "\<forall>c \<in> set (col_sums (pl_sum ?pl)). 0 < c"
    by (simp add: col_sums_def upt_rec)
  have l: "shaped 1 2 [[0, 0 :: real]]" by (simp add: shaped_def)
  have m: "length (pl_mask ?pl) = 1" by simp
  show ?thesis
    using depict_single_process [OF sh B nonneg rows cols l m, of 1 0 "[]"] by blast
qed

subsection \<open>Batches produced by the generator are not degenerate\<close>

text \<open>
  Every softmax output is positive, so the \<open>pseudo_label_sum\<close> that the generator hands
  to the depict method has positive entries whenever the batch and the class axis are not
  empty: it meets the conditions under which the rows of \<open>targets_u_aux\<close> sum to 1.
\<close>

lemma softmax_pos: "\<forall>v \<in> set (softmax row). 0 < v"
proof (cases row)
  case Nil
  then show ?thesis by (simp add: softmax_def)
next
  case (Cons z zs)
  have "0 \<le> sum_list (map exp zs)" by (rule sum_list_nonneg) auto
  then have "0 < exp z + sum_list (map exp zs)" by (intro add_pos_nonneg) auto
  then have "0 < sum_list (map exp row)" unfolding Cons by simp
  then show ?thesis by (auto simp: softmax_def)
qed

lemma softmax_T_pos: "\<forall>row \<in> set (softmax_T T logits). \<forall>v \<in> set row. 0 < v"
  using softmax_pos by (auto simp: softmax_T_def)

lemma resampled_passes_pos:
  "\<forall>P \<in> set (resampled_passes F T fw n s). \<forall>row \<in> set P. \<forall>v \<in> set row. 0 < v"
proof (induction n arbitrary: s)
  case 0
  then show ?case by simp
next
  case (Suc n)
  obtain out s' where F: "F fw s = (out, s')" by (cases "F fw s")
  show ?case using Suc.IH [of s'] softmax_T_pos [of T out] by (simp add: F)
qed

lemma passes_pos:
  "\<forall>P \<in> set (passes F T C logits_u_w fw s). \<forall>row \<in> set P. \<forall>v \<in> set row. 0 < v"
  using resampled_passes_pos [of F T fw "nat (C - 1)" s] softmax_T_pos [of T logits_u_w]
  by (simp add: passes_def)

lemma sum_list_pos_nonempty: "xs \<noteq> [] \<Longrightarrow> \<forall>v \<in> set xs. 0 < v \<Longrightarrow> 0 < sum_list (xs :: real list)"
  by (induction xs) (auto simp: add_pos_nonneg sum_list_nonneg less_imp_le)

lemma generated_sum_nondegenerate:
  fixes F :: "'f list \<Rightarrow> 's \<Rightarrow> mat \<times> 's" and C :: int
  assumes C: "1 \<le> C" and K: "0 < K" and B: "0 < B"
    and sh: "\<forall>P \<in> set (passes F T C logits_u_w fw s). shaped B K P"
    and run: "pseudo_label F T C \<tau> logits_u_w fw s = Inr (pl, s')"
  shows "shaped B K (pl_sum pl)
     \<and> (\<forall>row \<in> set (pl_sum pl). \<forall>v \<in> set row. 0 < v)
     \<and> (\<forall>c \<in> set (col_sums (pl_sum pl)). 0 < c)
     \<and> length (pl_mask pl) = B"
proof -
  define n where "n = nat (C - 1)"
  define p1 where "p1 = softmax_T T logits_u_w"
  define Ps where "Ps = resampled_passes F T fw n s"
  define sm where "sm = foldl mat_add p1 Ps"
  define mul where "mul = foldl mat_mul p1 Ps"
  have pa: "passes F T C logits_u_w fw s = p1 # Ps"
    by (simp add: passes_def p1_def Ps_def n_def)
  have sp1: "shaped B K p1" and sPs: "\<forall>P \<in> set Ps. shaped B K P"
    using sh unfolding pa by simp_all
  have pos: "\<forall>P \<in> set (p1 # Ps). \<forall>row \<in> set P. \<forall>v \<in> set row. 0 < v"
    using passes_pos [of F T C logits_u_w fw s] unfolding pa .
  have loop: "classifier_loop F T fw n (p1, p1, s)
      = (mul, sm, snd (snd (classifier_loop F T fw n (p1, p1, s))))"
    unfolding mul_def sm_def Ps_def by (rule classifier_loop_folds)
  have smul: "shaped B K mul" unfolding mul_def using sp1 sPs by (rule foldl_shaped_mul)
  have ssm: "shaped B K sm" unfolding sm_def using sp1 sPs by (rule foldl_shaped_add)
  have conf: "confidence \<tau> mul =
           Inr (map (\<lambda>row. fst (row_max row)) mul, map (\<lambda>row. snd (row_max row)) mul,
                map (\<lambda>m. if m \<ge> \<tau> then 1 else 0) (map (\<lambda>row. fst (row_max row)) mul))"
    using smul K by (rule confidence_shaped)
  define s3 where "s3 = snd (snd (classifier_loop F T fw n (p1, p1, s)))"
  define sm' where "sm' = map (map (\<lambda>v. v / real_of_int C)) sm"
  let ?mx = "map (\<lambda>row. fst (row_max row)) mul"
  let ?tg = "map (\<lambda>row. snd (row_max row)) mul"
  let ?msk = "map (\<lambda>m. if m \<ge> \<tau> then 1 else 0) ?mx"
  let ?pl = "\<lparr>pl_mul = mul, pl_sum = sm', pl_max_probs = ?mx,
              pl_targets_u = ?tg, pl_mask = ?msk\<rparr>"
  have loop': "classifier_loop F T fw n (p1, p1, s) = (mul, sm, s3)"
    using loop unfolding s3_def .
  have res: "pseudo_label F T C \<tau> logits_u_w fw s = Inr (?pl, s3)"
    unfolding pseudo_label_def
    by (simp add: Let_def p1_def [symmetric] n_def [symmetric] loop' conf bind_err_def
        sm'_def [symmetric])
  have "pl = ?pl" using run unfolding res by simp
  then have pl: "pl_sum pl = map (map (\<lambda>v. v / real_of_int C)) sm"
      "length (pl_mask pl) = length mul"
    by (simp_all add: sm'_def)
  have shp: "shaped B K (pl_sum pl)" using ssm by (simp add: pl shaped_def)
  have entry: "0 < pl_sum pl ! i ! j" if i: "i < B" and j: "j < K" for i j
  proof -
    have l: "length sm = B" "length (sm ! i) = K" using ssm i by (simp_all add: shaped_def)
    have "sm ! i ! j = p1 ! i ! j + sum_list (map (\<lambda>P. P ! i ! j) Ps)"
      unfolding sm_def using foldl_mat_add_nth [OF sp1 sPs i j] by simp
    also have "\<dots> = sum_list (map (\<lambda>P. P ! i ! j) (p1 # Ps))" by simp
    finally have e: "sm ! i ! j = sum_list (map (\<lambda>P. P ! i ! j) (p1 # Ps))" .
    have "\<forall>v \<in> set (map (\<lambda>P. P ! i ! j) (p1 # Ps)). 0 < v"
    proof
      fix v assume "v \<in> set (map (\<lambda>P. P ! i ! j) (p1 # Ps))"
      then obtain P where P: "P \<in> set (p1 # Ps)" and v: "v = P ! i ! j" by auto
      have "shaped B K P" using P sp1 sPs by auto
      then have "P ! i \<in> set P" "P ! i ! j \<in> set (P ! i)"
        using i j by (auto simp: shaped_def)
      then show "0 < v" using pos P v by blast
    qed
    then have "0 < sm ! i ! j" unfolding e by (intro sum_list_pos_nonempty) auto
    moreover have "pl_sum pl ! i ! j = sm ! i ! j / real_of_int C"
      using l i j by (simp add: pl)
    ultimately show ?thesis using C by simp
  qed
  have rows: "\<forall>row \<in> set (pl_sum pl). \<forall>v \<in> set row. 0 < v"
  proof (intro ballI)
    fix row v assume r: "row \<in> set (pl_sum pl)" and v: "v \<in> set row"
    obtain i where i: "i < length (pl_sum pl)" "row = pl_sum pl ! i"
      using r by (auto simp: in_set_conv_nth)
    obtain j where j: "j < length row" "v = row ! j"
      using v by (auto simp: in_set_conv_nth)
    have "i < B" "j < K" using shp i j r by (auto simp: shaped_def)
    then show "0 < v" using entry i j by simp
  qed
  have cols: "\<forall>c \<in> set (col_sums (pl_sum pl)). 0 < c"
  proof
    fix c assume c: "c \<in> set (col_sums (pl_sum pl))"
    have lc: "length (col_sums (pl_sum pl)) = K" using shp B by (rule col_sums_length)
    obtain j where j: "j < K" "c = col_sums (pl_sum pl) ! j"
      using c lc by (auto simp: in_set_conv_nth)
    have "c = (\<Sum>r<B. pl_sum pl ! r ! j)" using col_sums_nth [OF shp B j(1)] j(2) by simp
    also have "\<dots> > 0" using entry j(1) B by (intro sum_pos) auto
    finally show "0 < c" by simp
  qed
  have "length mul = B" using smul by (simp add: shaped_def)
  then show ?thesis using shp rows cols pl(2) by simp
qed

lemma depict_rows_of_generated_batch:
  fixes F :: "'f list \<Rightarrow> 's \<Rightarrow> mat \<times> 's" and C :: int
  assumes C: "1 \<le> C" and K: "0 < K" and B: "0 < B"
    and sh: "\<forall>P \<in> set (passes F T C logits_u_w fw s). shaped B K P"
    and run: "pseudo_label F T C \<tau> logits_u_w fw s = Inr (pl, s')"
  shows "\<forall>row \<in> set (depict_targets (pl_sum pl) (pl_sum pl)). sum_list row = 1"
proof -
  note g = generated_sum_nondegenerate [OF C K B sh run]
  have shp: "shaped B K (pl_sum pl)" using g by simp
  have pos: "\<forall>row \<in> set (pl_sum pl). \<forall>v \<in> set row. 0 < v" using g by simp
  have nonneg: "\<forall>row \<in> set (pl_sum pl). \<forall>v \<in> set row. 0 \<le> v"
    using pos by (auto intro: less_imp_le)
  have rows: "\<forall>row \<in> set (pl_sum pl). \<exists>v \<in> set row. 0 < v"
  proof
    fix row assume r: "row \<in> set (pl_sum pl)"
    then have "length row = K" using shp by (simp add: shaped_def)
    then have "row \<noteq> []" using K by auto
    then obtain v where "v \<in> set row" by (cases row) auto
    then show "\<exists>v \<in> set row. 0 < v" using pos r by blast
  qed
  have cols: "\<forall>c \<in> set (col_sums (pl_sum pl)). 0 < c" using g by simp
  have lc: "length (col_sums (pl_sum pl)) = K" using shp B by (rule col_sums_length)
  show ?thesis using depict_targets_rows [OF shp B nonneg rows cols lc] by simp
qed

subsection \<open>Gathering over the process group\<close>

lemma write_cell_twice: "write_cell (write_cell st a c) a d = write_cell st a d"
  by (simp add: write_cell_def)

lemma write_cell_read: "cells (write_cell st a t) a = t"
  by (simp add: write_cell_def)

lemma fold_same_cell:
  "fold (\<lambda>(a, t) st'. write_cell st' a t) (zip (replicate (length cs) a) cs) (write_cell st a c)
     = write_cell st a (last (c # cs))"
proof (induction cs arbitrary: c)
  case Nil
  then show ?case by simp
next
  case (Cons d cs)
  show ?case using Cons.IH [of d] by (simp add: write_cell_twice)
qed

lemma gather_repeats_last_rank:
  assumes "length peer_sums = nat world_size" "0 < world_size"
  shows "gather_pseudo_label_sum world_size rank peer_sums st p
           = Inr (concat (replicate (nat world_size) (last (peer_sums[rank := p]))))"
proof -
  define cs where "cs = peer_sums[rank := p]"
  define st1 where "st1 = st\<lparr>lim := Suc (lim st)\<rparr>"
  have l: "nat world_size = length cs" using assms(1) by (simp add: cs_def)
  have ne: "cs \<noteq> []" using assms l by auto
  have cl: "clone st p = (lim st, write_cell st1 (lim st) p)"
    by (simp add: clone_def write_cell_def st1_def)
  have "fold (\<lambda>(a, t) st'. write_cell st' a t) (zip (replicate (length cs) (lim st)) cs)
          (write_cell st1 (lim st) p) = write_cell st1 (lim st) (last cs)"
    using fold_same_cell [of cs "lim st" st1 p] ne by simp
  then have ag: "all_gather (write_cell st1 (lim st) p) (replicate (length cs) (lim st)) cs
          = Inr (write_cell st1 (lim st) (last cs))"
    by (simp add: all_gather_def)
  show ?thesis
    unfolding gather_pseudo_label_sum_def cl cs_def [symmetric] l
    using ne by (simp add: ag bind_err_def write_cell_read map_replicate_const)
qed

text \<open>
  C8. In distributed mode the list handed to the collective holds \<open>world_size\<close>
  references to one tensor object, so every copy of the collective lands in the same
  object and the concatenation is \<open>world_size\<close> copies of the batch written last
  (lemma \<open>gather_repeats_last_rank\<close>). With two processes contributing [[3/4, 1/4]] and
  [[1/4, 3/4]], rank 0 obtains [[1/4, 3/4], [1/4, 3/4]], whose per-class sums are
  [1/2, 3/2], whereas the batches of the two processes concatenated have per-class sums
  [1, 1].
\<close>

theorem depict_gather_aliasing:
  "gather_pseudo_label_sum 2 0 [[[3 / 4, 1 / 4]], [[1 / 4, 3 / 4]]] empty_store [[3 / 4, 1 / 4]]
     = Inr [[1 / 4, 3 / 4], [1 / 4, 3 / 4]]
   \<and> col_sums [[1 / 4, 3 / 4], [1 / 4, 3 / 4]] = [1 / 2, 3 / 2]
   \<and> col_sums (concat [[[3 / 4, 1 / 4]], [[1 / 4, 3 / 4]]]) = [1, 1]"
proof -
  have u: "[0..<2] = [0, Suc 0]" by (simp add: upt_rec)
  have l: "length [[[3 / 4, 1 / 4]], [[1 / 4, 3 / 4 :: real]]] = nat 2" by simp
  have a: "gather_pseudo_label_sum 2 0 [[[3 / 4, 1 / 4]], [[1 / 4, 3 / 4]]] empty_store [[3 / 4, 1 / 4]]
     = Inr [[1 / 4, 3 / 4], [1 / 4, 3 / 4]]"
    using gather_repeats_last_rank [OF l, of 0 empty_store "[[3 / 4, 1 / 4]]"]
    by (simp add: numeral_2_eq_2)
  have b: "col_sums [[1 / 4, 3 / 4], [1 / 4, 3 / 4]] = [1 / 2, 3 / 2]"
    by (simp add: col_sums_def u)
  have c: "col_sums (concat [[[3 / 4, 1 / 4]], [[1 / 4, 3 / 4]]]) = [1, 1]"
    by (simp add: col_sums_def u)
  show ?thesis using a b c by simp
qed

subsection \<open>Training step\<close>

lemma bind_err_Inr:
  "bind_err m f = Inr r \<Longrightarrow> \<exists>v. m = Inr v \<and> f v = Inr r"
  by (cases m) (simp_all add: bind_err_def)

lemma optimise_Inr:
  assumes "optimise c upd a st peer_sums inputs_x targets_x inputs_u_w inputs_u_s
             = Inr (loss, st1, pl, logits_x)"
  shows "\<exists>logits_u_w logits_u_s features s2 features' s3 target Lx Lu p' o1.
      forward c a (params st) (net_state st) inputs_x inputs_u_w inputs_u_s
        = Inr (logits_x, logits_u_w, logits_u_s, features, s2)
    \<and> de_interleave features (2 * args_mu a + 1) = Inr features'
    \<and> pseudo_label (model_F c (params st)) (args_T a) (args_num_classifiers a)
          (args_confidence_threshold a) logits_u_w
          (take (length inputs_u_w) (drop (length inputs_x) features')) s2 = Inr (pl, s3)
    \<and> unsup_target (args_pseudo_label_method a) (args_local_rank a) (args_world_size a)
          (args_rank a) peer_sums pl = Inr target
    \<and> loss_of c a (net_state st) inputs_x targets_x inputs_u_w inputs_u_s target (pl_mask pl)
          (params st) = Inr (Lx, Lu, loss)
    \<and> optimizer_step c (optim st) (params st)
          (backward c (args_amp a)
             (\<lambda>p. map_sum id (\<lambda>(Lx', Lu', loss'). loss')
                    (loss_of c a (net_state st) inputs_x targets_x inputs_u_w inputs_u_s target
                       (pl_mask pl) p))
             (params st)) = (p', o1)
    \<and> st1 = \<lparr>params = p', net_state = s3, optim = scheduler_step c o1,
              ema_model = (if args_use_ema a then ema_update c (ema_model st) p' s3
                           else ema_model st),
              meters = (meters st)\<lparr>losses := upd (losses (meters st)) loss None,
                                    losses_x := upd (losses_x (meters st)) Lx None,
                                    losses_u := upd (losses_u (meters st)) Lu None\<rparr>\<rparr>"
  using assms unfolding optimise_def
  by (fastforce simp: Let_def split: prod.splits dest!: bind_err_Inr)

text \<open>
  C7. In every training step that gets as far as the metrics, whatever the diagnostic
  labels: the three loss accumulators and the mask-rate accumulator are updated; when the
  confidence mask sums to zero, \<open>noise_rates\<close>, \<open>mislabeled_nums\<close>, \<open>noise_rate_estms\<close>
  and \<open>mislabeled_num_estms\<close> are left as they were (no update call at all); when the
  mask sum is not zero, each of the four receives exactly one update call.
\<close>

theorem diagnostics_skipped_on_empty_mask:
  assumes opt: "optimise c upd a st peer_sums inputs_x targets_x inputs_u_w inputs_u_s
                  = Inr (loss, st1, pl, logits_x)"
  shows "\<exists>st' Lx Lu.
      train_step c upd a st peer_sums inputs_x targets_x inputs_u_w inputs_u_s targets_u_gt
        = Inr (loss, st')
    \<and> losses (meters st') = upd (losses (meters st)) loss None
    \<and> losses_x (meters st') = upd (losses_x (meters st)) Lx None
    \<and> losses_u (meters st') = upd (losses_u (meters st)) Lu None
    \<and> mask_probs (meters st') = upd (mask_probs (meters st)) (mean (pl_mask pl)) None
    \<and> (sum_list (pl_mask pl) = 0 \<longrightarrow>
           noise_rates (meters st') = noise_rates (meters st)
         \<and> mislabeled_nums (meters st') = mislabeled_nums (meters st)
         \<and> noise_rate_estms (meters st') = noise_rate_estms (meters st)
         \<and> mislabeled_num_estms (meters st') = mislabeled_num_estms (meters st))
    \<and> (sum_list (pl_mask pl) \<noteq> 0 \<longrightarrow>
           noise_rates (meters st')
             = upd (noise_rates (meters st))
                 (mean (masked_select (ne_float (pl_targets_u pl) targets_u_gt) (pl_mask pl)))
                 (Some (sum_list (pl_mask pl)))
         \<and> mislabeled_nums (meters st')
             = upd (mislabeled_nums (meters st))
                 (sum_list (masked_select (ne_float (pl_targets_u pl) targets_u_gt) (pl_mask pl)))
                 None
         \<and> noise_rate_estms (meters st')
             = upd (noise_rate_estms (meters st))
                 (mean (ne_float (map (\<lambda>row. snd (row_max row)) logits_x) targets_x)) None
         \<and> mislabeled_num_estms (meters st')
             = upd (mislabeled_num_estms (meters st))
                 (mean (ne_float (map (\<lambda>row. snd (row_max row)) logits_x) targets_x)
                    * sum_list (pl_mask pl)) None)"
proof -
  obtain Lx Lu where m1: "meters st1 =
      (meters st)\<lparr>losses := upd (losses (meters st)) loss None,
                   losses_x := upd (losses_x (meters st)) Lx None,
                   losses_u := upd (losses_u (meters st)) Lu None\<rparr>"
    using optimise_Inr [OF opt] by auto
  let ?st' = "st1\<lparr>meters := update_diagnostics upd (meters st1) (pl_mask pl) (pl_targets_u pl)
                                targets_u_gt logits_x targets_x\<rparr>"
  have ts: "train_step c upd a st peer_sums inputs_x targets_x inputs_u_w inputs_u_s targets_u_gt
        = Inr (loss, ?st')"
    by (simp add: train_step_def opt bind_err_def)
  show ?thesis
    apply (rule exI [of _ ?st'], rule exI [of _ Lx], rule exI [of _ Lu])
    using ts by (simp add: m1 update_diagnostics_def Let_def)
qed

theorem diagnostics_skipped_on_empty_mask_witness:
  "(\<exists>st'. train_step
     \<lparr>model_G = (\<lambda>p xs s. (xs, s)), model_F = (\<lambda>p fs s. (map (\<lambda>f. [0, 0]) fs, s)),
      backward = (\<lambda>amp f p. ()), optimizer_step = (\<lambda>opt p g. (p, opt)),
      scheduler_step = (\<lambda>opt. opt), ema_update = (\<lambda>e p s. e)\<rparr>
     (\<lambda>m v n. Suc m)
     \<lparr>args_mu = 1, args_T = 1, args_num_classifiers = 1, args_confidence_threshold = 95 / 100,
      args_lambda_u = 1, args_rm_aug_s = False, args_pseudo_label_method = Fixmatch,
      args_local_rank = -1, args_world_size = 1, args_rank = 0, args_use_ema = True,
      args_amp = False, args_start_epoch = 0, args_resume = [], args_epochs = 1,
      args_eval_step = 1\<rparr>
     \<lparr>params = (), net_state = (), optim = (), ema_model = (),
      meters = \<lparr>losses = 0, losses_x = 0, losses_u = 0, mask_probs = 0, noise_rates = 0,
                mislabeled_nums = 0, noise_rate_estms = 0, mislabeled_num_estms = (0::nat)\<rparr>\<rparr>
     [] [()] [0] [()] [()] [1] = Inr (ln 2, st')
   \<and> losses (meters st') = 1 \<and> mask_probs (meters st') = 1
   \<and> noise_rates (meters st') = 0 \<and> mislabeled_nums (meters st') = 0
   \<and> noise_rate_estms (meters st') = 0 \<and> mislabeled_num_estms (meters st') = 0)
 \<and> (\<exists>st'. train_step
     \<lparr>model_G = (\<lambda>p xs s. (xs, s)), model_F = (\<lambda>p fs s. (map (\<lambda>f. [0, 0]) fs, s)),
      backward = (\<lambda>amp f p. ()), optimizer_step = (\<lambda>opt p g. (p, opt)),
      scheduler_step = (\<lambda>opt. opt), ema_update = (\<lambda>e p s. e)\<rparr>
     (\<lambda>m v n. Suc m)
     \<lparr>args_mu = 1, args_T = 1, args_num_classifiers = 1, args_confidence_threshold = 1 / 2,
      args_lambda_u = 1, args_rm_aug_s = False, args_pseudo_label_method = Fixmatch,
      args_local_rank = -1, args_world_size = 1, args_rank = 0, args_use_ema = True,
      args_amp = False, args_start_epoch = 0, args_resume = [], args_epochs = 1,
      args_eval_step = 1\<rparr>
     \<lparr>params = (), net_state = (), optim = (), ema_model = (),
      meters = \<lparr>losses = 0, losses_x = 0, losses_u = 0, mask_probs = 0, noise_rates = 0,
                mislabeled_nums = 0, noise_rate_estms = 0, mislabeled_num_estms = (0::nat)\<rparr>\<rparr>
     [] [()] [0] [()] [()] [1] = Inr (2 * ln 2, st')
   \<and> losses (meters st') = 1 \<and> mask_probs (meters st') = 1
   \<and> noise_rates (meters st') = 1 \<and> mislabeled_nums (meters st') = 1
   \<and> noise_rate_estms (meters st') = 1 \<and> mislabeled_num_estms (meters st') = 1)"
proof -
  let ?c = "\<lparr>model_G = (\<lambda>p xs s. (xs, s)), model_F = (\<lambda>p fs s. (map (\<lambda>f. [0, 0]) fs, s)),
      backward = (\<lambda>amp f p. ()), optimizer_step = (\<lambda>opt p g. (p, opt)),
      scheduler_step = (\<lambda>opt. opt), ema_update = (\<lambda>e p s. e)\<rparr>
      :: (unit, unit, unit, unit, unit, unit, unit) components"
  let ?st = "\<lparr>params = (), net_state = (), optim = (), ema_model = (),
      meters = \<lparr>losses = 0, losses_x = 0, losses_u = 0, mask_probs = 0, noise_rates = 0,
                mislabeled_nums = 0, noise_rate_estms = 0, mislabeled_num_estms = (0::nat)\<rparr>\<rparr>"
  let ?st1 = "\<lparr>params = (), net_state = (), optim = (), ema_model = (),
             meters = \<lparr>losses = Suc 0, losses_x = Suc 0, losses_u = Suc 0, mask_probs = 0,
                       noise_rates = 0, mislabeled_nums = 0, noise_rate_estms = 0,
                       mislabeled_num_estms = (0::nat)\<rparr>\<rparr>"
  have opt95: "optimise ?c (\<lambda>m v n. Suc m)
     \<lparr>args_mu = 1, args_T = 1, args_num_classifiers = 1, args_confidence_threshold = 95 / 100,
      args_lambda_u = 1, args_rm_aug_s = False, args_pseudo_label_method = Fixmatch,
      args_local_rank = -1, args_world_size = 1, args_rank = 0, args_use_ema = True,
      args_amp = False, args_start_epoch = 0, args_resume = [], args_epochs = 1,
      args_eval_step = 1\<rparr>
     ?st [] [()] [0] [()] [()]
     = Inr (ln 2, ?st1,
            \<lparr>pl_mul = [[1 / 2, 1 / 2]], pl_sum = [[1 / 2, 1 / 2]], pl_max_probs = [1 / 2],
             pl_targets_u = [0], pl_mask = [0]\<rparr>,
            [[0, 0]])"
    by (simp add: optimise_def forward_def loss_of_def interleave_def de_interleave_def
        infer_dim_def view2_def transpose01_def chunk2_def pseudo_label_def confidence_def
        torch_max_def row_max_def softmax_T_def softmax_def log_softmax_def unsup_target_def
        unsup_loss_def cross_entropy_mean_def cross_entropy_none_def mean_def bind_err_def
        Let_def upt_rec)
  have opt50: "optimise ?c (\<lambda>m v n. Suc m)
     \<lparr>args_mu = 1, args_T = 1, args_num_classifiers = 1, args_confidence_threshold = 1 / 2,
      args_lambda_u = 1, args_rm_aug_s = False, args_pseudo_label_method = Fixmatch,
      args_local_rank = -1, args_world_size = 1, args_rank = 0, args_use_ema = True,
      args_amp = False, args_start_epoch = 0, args_resume = [], args_epochs = 1,
      args_eval_step = 1\<rparr>
     ?st [] [()] [0] [()] [()]
     = Inr (2 * ln 2, ?st1,
            \<lparr>pl_mul = [[1 / 2, 1 / 2]], pl_sum = [[1 / 2, 1 / 2]], pl_max_probs = [1 / 2],
             pl_targets_u = [0], pl_mask = [1]\<rparr>,
            [[0, 0]])"
    by (simp add: optimise_def forward_def loss_of_def interleave_def de_interleave_def
        infer_dim_def view2_def transpose01_def chunk2_def pseudo_label_def confidence_def
        torch_max_def row_max_def softmax_T_def softmax_def log_softmax_def unsup_target_def
        unsup_loss_def cross_entropy_mean_def cross_entropy_none_def mean_def bind_err_def
        Let_def upt_rec)
  have a: "\<exists>st'. train_step ?c (\<lambda>m v n. Suc m)
     \<lparr>args_mu = 1, args_T = 1, args_num_classifiers = 1, args_confidence_threshold = 95 / 100,
      args_lambda_u = 1, args_rm_aug_s = False, args_pseudo_label_method = Fixmatch,
      args_local_rank = -1, args_world_size = 1, args_rank = 0, args_use_ema = True,
      args_amp = False, args_start_epoch = 0, args_resume = [], args_epochs = 1,
      args_eval_step = 1\<rparr>
     ?st [] [()] [0] [()] [()] [1] = Inr (ln 2, st')
   \<and> losses (meters st') = 1 \<and> mask_probs (meters st') = 1
   \<and> noise_rates (meters st') = 0 \<and> mislabeled_nums (meters st') = 0
   \<and> noise_rate_estms (meters st') = 0 \<and> mislabeled_num_estms (meters st') = 0"
    using diagnostics_skipped_on_empty_mask [OF opt95, of "[1]"] by auto
  have b: "\<exists>st'. train_step ?c (\<lambda>m v n. Suc m)
     \<lparr>args_mu = 1, args_T = 1, args_num_classifiers = 1, args_confidence_threshold = 1 / 2,
      args_lambda_u = 1, args_rm_aug_s = False, args_pseudo_label_method = Fixmatch,
      args_local_rank = -1, args_world_size = 1, args_rank = 0, args_use_ema = True,
      args_amp = False, args_start_epoch = 0, args_resume = [], args_epochs = 1,
      args_eval_step = 1\<rparr>
     ?st [] [()] [0] [()] [()] [1] = Inr (2 * ln 2, st')
   \<and> losses (meters st') = 1 \<and> mask_probs (meters st') = 1
   \<and> noise_rates (meters st') = 1 \<and> mislabeled_nums (meters st') = 1
   \<and> noise_rate_estms (meters st') = 1 \<and> mislabeled_num_estms (meters st') = 1"
    using diagnostics_skipped_on_empty_mask [OF opt50, of "[1]"] by auto
  show ?thesis using a b by (rule conjI)
qed

text \<open>
  C4. Two executions of a training step that differ only in \<open>targets_u_gt\<close> fail
  together with the same error or succeed together, and then they have the same total
  loss, the same parameters, model state, optimizer and scheduler state and EMA shadow,
  and the same accumulators except \<open>noise_rates\<close> and \<open>mislabeled_nums\<close>, the only two
  that read \<open>targets_u_gt\<close>.
\<close>

theorem targets_u_gt_noninterference:
  "(train_step c upd a st peer_sums inputs_x targets_x inputs_u_w inputs_u_s gt1 = Inl e \<longrightarrow>
      train_step c upd a st peer_sums inputs_x targets_x inputs_u_w inputs_u_s gt2 = Inl e)
   \<and> (train_step c upd a st peer_sums inputs_x targets_x inputs_u_w inputs_u_s gt1
         = Inr (loss, st1) \<longrightarrow>
       (\<exists>st2. train_step c upd a st peer_sums inputs_x targets_x inputs_u_w inputs_u_s gt2
               = Inr (loss, st2)
          \<and> params st2 = params st1 \<and> net_state st2 = net_state st1
          \<and> optim st2 = optim st1 \<and> ema_model st2 = ema_model st1
          \<and> losses (meters st2) = losses (meters st1)
          \<and> losses_x (meters st2) = losses_x (meters st1)
          \<and> losses_u (meters st2) = losses_u (meters st1)
          \<and> mask_probs (meters st2) = mask_probs (meters st1)
          \<and> noise_rate_estms (meters st2) = noise_rate_estms (meters st1)
          \<and> mislabeled_num_estms (meters st2) = mislabeled_num_estms (meters st1)))"
proof (cases "optimise c upd a st peer_sums inputs_x targets_x inputs_u_w inputs_u_s")
  case (Inl e')
  then show ?thesis by (simp add: train_step_def bind_err_def)
next
  case (Inr r)
  obtain l st' pl logits_x where r: "r = (l, st', pl, logits_x)" by (cases r) auto
  show ?thesis
    by (auto simp: train_step_def bind_err_def Inr r update_diagnostics_def Let_def)
qed

theorem targets_u_gt_noninterference_witness:
  "\<exists>st2.
     train_step
       \<lparr>model_G = (\<lambda>p xs s. (xs, s)), model_F = (\<lambda>p fs s. (map (\<lambda>f. [0, 0]) fs, s)),
        backward = (\<lambda>amp f p. case f p of Inl err \<Rightarrow> 0 | Inr l \<Rightarrow> l),
        optimizer_step = (\<lambda>opt p g. (p - g, opt)),
        scheduler_step = (\<lambda>opt. Suc opt), ema_update = (\<lambda>e p s. p)\<rparr>
       (\<lambda>m v n. m + v)
       \<lparr>args_mu = 1, args_T = 1, args_num_classifiers = 1, args_confidence_threshold = 1 / 2,
        args_lambda_u = 1, args_rm_aug_s = False, args_pseudo_label_method = Fixmatch,
        args_local_rank = -1, args_world_size = 1, args_rank = 0, args_use_ema = True,
        args_amp = False, args_start_epoch = 0, args_resume = [], args_epochs = 1,
        args_eval_step = 1\<rparr>
       \<lparr>params = (0::real), net_state = (), optim = (0::nat), ema_model = (0::real),
        meters = \<lparr>losses = 0, losses_x = 0, losses_u = 0, mask_probs = 0, noise_rates = 0,
                  mislabeled_nums = 0, noise_rate_estms = 0, mislabeled_num_estms = (0::real)\<rparr>\<rparr>
       [] [()] [0] [()] [()] [1] = Inr (2 * ln 2, st2)
   \<and> params st2 = - (2 * ln 2) \<and> optim st2 = Suc 0 \<and> losses (meters st2) = 2 * ln 2"
proof -
  let ?c = "\<lparr>model_G = (\<lambda>p xs s. (xs, s)), model_F = (\<lambda>p fs s. (map (\<lambda>f. [0, 0]) fs, s)),
        backward = (\<lambda>amp f p. case f p of Inl err \<Rightarrow> 0 | Inr l \<Rightarrow> l),
        optimizer_step = (\<lambda>opt p g. (p - g, opt)),
        scheduler_step = (\<lambda>opt. Suc opt), ema_update = (\<lambda>e p s. p)\<rparr>
         :: (real, unit, nat, real, real, unit, unit) components"
  let ?a = "\<lparr>args_mu = 1, args_T = 1, args_num_classifiers = 1, args_confidence_threshold = 1 / 2,
        args_lambda_u = 1, args_rm_aug_s = False, args_pseudo_label_method = Fixmatch,
        args_local_rank = -1, args_world_size = 1, args_rank = 0, args_use_ema = True,
        args_amp = False, args_start_epoch = 0, args_resume = [], args_epochs = 1,
        args_eval_step = 1\<rparr>"
  let ?st = "\<lparr>params = (0::real), net_state = (), optim = (0::nat), ema_model = (0::real),
        meters = \<lparr>losses = 0, losses_x = 0, losses_u = 0, mask_probs = 0, noise_rates = 0,
                  mislabeled_nums = 0, noise_rate_estms = 0, mislabeled_num_estms = (0::real)\<rparr>\<rparr>"
  let ?st1 = "\<lparr>params = - (2 * ln 2), net_state = (), optim = Suc 0, ema_model = - (2 * ln 2),
        meters = \<lparr>losses = 2 * ln 2, losses_x = ln 2, losses_u = ln 2, mask_probs = 1,
                  noise_rates = 0, mislabeled_nums = 0, noise_rate_estms = 0,
                  mislabeled_num_estms = (0::real)\<rparr>\<rparr>"
  have run: "train_step ?c (\<lambda>m v n. m + v) ?a ?st [] [()] [0] [()] [()] [0] = Inr (2 * ln 2, ?st1)"
    by (simp add: train_step_def update_diagnostics_def masked_select_def ne_float_def
        optimise_def forward_def loss_of_def interleave_def de_interleave_def
        infer_dim_def view2_def transpose01_def chunk2_def pseudo_label_def confidence_def
        torch_max_def row_max_def softmax_T_def softmax_def log_softmax_def unsup_target_def
        unsup_loss_def cross_entropy_mean_def cross_entropy_none_def mean_def bind_err_def
        Let_def upt_rec)
  note ni = targets_u_gt_noninterference [of ?c "\<lambda>m v n. m + v" ?a ?st "[]" "[()]" "[0]" "[()]"
        "[()]" "[0]" _ "[1]" "2 * ln 2" ?st1]
  show ?thesis
    using ni [THEN conjunct2, THEN mp, OF run]
    by (elim exE conjE, intro exI conjI) simp_all
qed

subsection \<open>Fetching the batches\<close>

text \<open>
  C9. Fetching a batch: when the first \<open>next\<close> succeeds its result is returned; when it
  raises any exception \<open>e\<close> whatsoever (StopIteration or not), the outcome is that of
  recreating the iterator from the loader and calling \<open>next\<close> once more, which does not
  depend on \<open>e\<close>; an exception of the recreation or of the second \<open>next\<close> is the
  outcome of the fetch, and an exception of either fetch is the outcome of fetching the
  batches of the step.
\<close>

theorem fetch_retries_once:
  "(next_batch it = Inr r \<longrightarrow> fetch iter_of next_batch loader it = Inr r)
   \<and> (next_batch it = Inl e \<longrightarrow>
        fetch iter_of next_batch loader it = bind_err (iter_of loader) next_batch)
   \<and> (next_batch it = Inl e \<and> iter_of loader = Inr it' \<and> next_batch it' = Inr r \<longrightarrow>
        fetch iter_of next_batch loader it = Inr r)
   \<and> (next_batch it = Inl e \<and> iter_of loader = Inr it' \<and> next_batch it' = Inl e' \<longrightarrow>
        fetch iter_of next_batch loader it = Inl e')
   \<and> (next_batch it = Inl e \<and> iter_of loader = Inl e' \<longrightarrow>
        fetch iter_of next_batch loader it = Inl e')
   \<and> (fetch iter_x next_x labeled_trainloader labeled_iter = Inl e' \<longrightarrow>
        fetch_batches iter_x next_x iter_u next_u labeled_trainloader unlabeled_trainloader
          labeled_iter unlabeled_iter = Inl e')
   \<and> (fetch iter_x next_x labeled_trainloader labeled_iter = Inr rx \<and>
        fetch iter_u next_u unlabeled_trainloader unlabeled_iter = Inl e' \<longrightarrow>
        fetch_batches iter_x next_x iter_u next_u labeled_trainloader unlabeled_trainloader
          labeled_iter unlabeled_iter = Inl e')"
proof -
  have ok: "next_batch it = Inr r \<longrightarrow> fetch iter_of next_batch loader it = Inr r"
    by (cases r) (simp add: fetch_def)
  have retry: "next_batch it = Inl e \<longrightarrow>
      fetch iter_of next_batch loader it = bind_err (iter_of loader) next_batch"
    by (simp add: fetch_def)
  have retry_ok: "next_batch it = Inl e \<and> iter_of loader = Inr it' \<and> next_batch it' = Inr r \<longrightarrow>
      fetch iter_of next_batch loader it = Inr r"
    using retry by (simp add: bind_err_def)
  have retry_fails: "next_batch it = Inl e \<and> iter_of loader = Inr it' \<and> next_batch it' = Inl e' \<longrightarrow>
      fetch iter_of next_batch loader it = Inl e'"
    using retry by (simp add: bind_err_def)
  have iter_fails: "next_batch it = Inl e \<and> iter_of loader = Inl e' \<longrightarrow>
      fetch iter_of next_batch loader it = Inl e'"
    using retry by (simp add: bind_err_def)
  have first: "fetch iter_x next_x labeled_trainloader labeled_iter = Inl e' \<longrightarrow>
      fetch_batches iter_x next_x iter_u next_u labeled_trainloader unlabeled_trainloader
        labeled_iter unlabeled_iter = Inl e'"
    by (simp add: fetch_batches_def bind_err_def)
  have second: "fetch iter_x next_x labeled_trainloader labeled_iter = Inr rx \<and>
      fetch iter_u next_u unlabeled_trainloader unlabeled_iter = Inl e' \<longrightarrow>
      fetch_batches iter_x next_x iter_u next_u labeled_trainloader unlabeled_trainloader
        labeled_iter unlabeled_iter = Inl e'"
    by (cases rx) (simp add: fetch_batches_def bind_err_def)
  show ?thesis
    using ok retry retry_ok retry_fails iter_fails first second by (intro conjI)
qed

theorem fetch_retries_once_witness:
  "fetch (\<lambda>loader. Inr loader)
         (\<lambda>it. case it of [] \<Rightarrow> Inl StopIteration
                 | b # bs \<Rightarrow> if b = 0 then Inl (OtherException ''worker died'') else Inr (b, bs))
         [1, 0, 2 :: nat] [0, 2] = Inr (1, [0, 2])
   \<and> fetch (\<lambda>loader. Inr loader)
         (\<lambda>it. case it of [] \<Rightarrow> Inl StopIteration
                 | b # bs \<Rightarrow> if b = 0 then Inl (OtherException ''worker died'') else Inr (b, bs))
         [0, 2 :: nat] [0, 2] = Inl (OtherException ''worker died'')
   \<and> fetch (\<lambda>loader. Inr loader)
         (\<lambda>it. case it of [] \<Rightarrow> Inl StopIteration
                 | b # bs \<Rightarrow> if b = 0 then Inl (OtherException ''worker died'') else Inr (b, bs))
         [1, 0, 2 :: nat] [] = Inr (1, [0, 2])"
proof -
  let ?iter = "\<lambda>loader :: nat list. (Inr loader :: py_error + nat list)"
  let ?next = "\<lambda>it :: nat list. case it of [] \<Rightarrow> Inl StopIteration
                 | b # bs \<Rightarrow> if b = 0 then Inl (OtherException ''worker died'') else Inr (b, bs)"
  have a: "fetch ?iter ?next [1, 0, 2] [0, 2] = Inr (1, [0, 2])"
    using fetch_retries_once [where next_batch = ?next and it = "[0, 2]"
        and e = "OtherException ''worker died''" and iter_of = ?iter and loader = "[1, 0, 2]", THEN conjunct2, THEN conjunct1]
    by (simp add: bind_err_def)
  have b: "fetch ?iter ?next [0, 2] [0, 2] = Inl (OtherException ''worker died'')"
    using fetch_retries_once [where next_batch = ?next and it = "[0, 2]"
        and e = "OtherException ''worker died''" and iter_of = ?iter and loader = "[0, 2]", THEN conjunct2, THEN conjunct1]
    by (simp add: bind_err_def)
  have c: "fetch ?iter ?next [1, 0, 2] [] = Inr (1, [0, 2])"
    using fetch_retries_once [where next_batch = ?next and it = "[]"
        and e = StopIteration and iter_of = ?iter and loader = "[1, 0, 2]", THEN conjunct2, THEN conjunct1]
    by (simp add: bind_err_def)
  show ?thesis using a b c by simp
qed

subsection \<open>Start epoch\<close>

text \<open>
  C10. The value of \<open>args.start_epoch\<close> given on the command line does not influence
  the outcome of lines 367-376; without \<open>--resume\<close> the start epoch is 0; with
  \<open>--resume\<close> naming a checkpoint file it is the epoch stored there (and without such a
  file the assertion fails); a start epoch other than 0 therefore comes from a resumed
  checkpoint; and the epoch loop, when it runs at all, begins at that start epoch.
\<close>

theorem start_epoch_option_ignored:
  "main_resume files (a\<lparr>args_start_epoch := v\<rparr>) best_acc
     = main_resume files (a\<lparr>args_start_epoch := w\<rparr>) best_acc
   \<and> (args_resume a = [] \<longrightarrow>
        main_resume files a best_acc = Inr (a\<lparr>args_start_epoch := 0\<rparr>, best_acc))
   \<and> (args_resume a \<noteq> [] \<and> files (args_resume a) = Some ck \<longrightarrow>
        main_resume files a best_acc
          = Inr (a\<lparr>args_start_epoch := ckpt_epoch ck\<rparr>, ckpt_best_acc ck))
   \<and> (args_resume a \<noteq> [] \<and> files (args_resume a) = None \<longrightarrow>
        main_resume files a best_acc = Inl AssertionError)
   \<and> (main_resume files a best_acc = Inr (a', best_acc') \<and> args_start_epoch a' \<noteq> 0 \<longrightarrow>
        args_resume a \<noteq> [] \<and>
        (\<exists>ck. files (args_resume a) = Some ck \<and> args_start_epoch a' = ckpt_epoch ck))
   \<and> (main_resume files a best_acc = Inr (a', best_acc') \<and> epoch_range a' \<noteq> [] \<longrightarrow>
        hd (epoch_range a') = args_start_epoch a')"
proof -
  have hd_upto: "hd [i..j] = i" if "[i..j] \<noteq> []" for i j :: int
    using that by (simp add: upto.simps split: if_splits)
  show ?thesis
    by (auto simp: main_resume_def Let_def epoch_range_def hd_upto split: option.splits if_splits)
qed

theorem start_epoch_option_ignored_witness:
  "main_resume (\<lambda>p. None)
     \<lparr>args_mu = 7, args_T = 1, args_num_classifiers = 1, args_confidence_threshold = 95 / 100,
      args_lambda_u = 1, args_rm_aug_s = False, args_pseudo_label_method = Depict,
      args_local_rank = -1, args_world_size = 1, args_rank = 0, args_use_ema = True,
      args_amp = False, args_start_epoch = 5, args_resume = [], args_epochs = 1024,
      args_eval_step = 1024\<rparr> 0
   = Inr (\<lparr>args_mu = 7, args_T = 1, args_num_classifiers = 1, args_confidence_threshold = 95 / 100,
      args_lambda_u = 1, args_rm_aug_s = False, args_pseudo_label_method = Depict,
      args_local_rank = -1, args_world_size = 1, args_rank = 0, args_use_ema = True,
      args_amp = False, args_start_epoch = 0, args_resume = [], args_epochs = 1024,
      args_eval_step = 1024\<rparr>, 0)
   \<and> main_resume (\<lambda>p. if p = ''ckpt'' then Some \<lparr>ckpt_epoch = 7, ckpt_best_acc = 1 / 2\<rparr> else None)
     \<lparr>args_mu = 7, args_T = 1, args_num_classifiers = 1, args_confidence_threshold = 95 / 100,
      args_lambda_u = 1, args_rm_aug_s = False, args_pseudo_label_method = Depict,
      args_local_rank = -1, args_world_size = 1, args_rank = 0, args_use_ema = True,
      args_amp = False, args_start_epoch = 5, args_resume = ''ckpt'', args_epochs = 1024,
      args_eval_step = 1024\<rparr> 0
   = Inr (\<lparr>args_mu = 7, args_T = 1, args_num_classifiers = 1, args_confidence_threshold = 95 / 100,
      args_lambda_u = 1, args_rm_aug_s = False, args_pseudo_label_method = Depict,
      args_local_rank = -1, args_world_size = 1, args_rank = 0, args_use_ema = True,
      args_amp = False, args_start_epoch = 7, args_resume = ''ckpt'', args_epochs = 1024,
      args_eval_step = 1024\<rparr>, 1 / 2)"
proof -
  let ?a = "\<lparr>args_mu = 7, args_T = 1, args_num_classifiers = 1, args_confidence_threshold = 95 / 100,
      args_lambda_u = 1, args_rm_aug_s = False, args_pseudo_label_method = Depict,
      args_local_rank = -1, args_world_size = 1, args_rank = 0, args_use_ema = True,
      args_amp = False, args_start_epoch = 5, args_resume = [], args_epochs = 1024,
      args_eval_step = 1024\<rparr>"
  let ?files = "\<lambda>p. if p = ''ckpt'' then Some \<lparr>ckpt_epoch = 7, ckpt_best_acc = 1 / 2\<rparr> else None"
  have a: "main_resume (\<lambda>p. None) ?a 0 = Inr (?a\<lparr>args_start_epoch := 0\<rparr>, 0)"
    using start_epoch_option_ignored [where files = "\<lambda>p. None" and a = ?a and best_acc = 0,
        THEN conjunct2, THEN conjunct1]
    by simp
  have b: "main_resume ?files (?a\<lparr>args_resume := ''ckpt''\<rparr>) 0
      = Inr (?a\<lparr>args_resume := ''ckpt'', args_start_epoch := 7\<rparr>, 1 / 2)"
    using start_epoch_option_ignored [where files = ?files and a = "?a\<lparr>args_resume := ''ckpt''\<rparr>"
        and best_acc = 0 and ck = "\<lparr>ckpt_epoch = 7, ckpt_best_acc = 1 / 2\<rparr>",
        THEN conjunct2, THEN conjunct2, THEN conjunct1]
    by simp
  show ?thesis using a b by simp
qed

end
